theory Spec2Isabelle
  imports Main
begin

section \<open>The transition component (src/utils/Transition.js, lines 1--147)\<close>

subsection \<open>JavaScript values\<close>

text \<open>
  The props \<open>show\<close>, \<open>appear\<close> and the fields of the context value are booleans that may
  be absent: \<open>None\<close> is JavaScript's \<open>undefined\<close>. \<open>truthy\<close> is the coercion that
  \<open>||\<close>, \<open>!\<close> and the library's \<open>if (props.in)\<close> apply.
\<close>

type_synonym jsbool = "bool option"

definition truthy :: "jsbool \<Rightarrow> bool" where
  "truthy v = (v = Some True)"

definition js_or :: "jsbool \<Rightarrow> jsbool \<Rightarrow> jsbool" where
  "js_or a b = (if truthy a then a else b)"

definition js_not :: "jsbool \<Rightarrow> jsbool" where
  "js_not a = Some (\<not> truthy a)"

subsection \<open>Class-name strings\<close>

text \<open>
  \<open>s.split(' ')\<close>: the pieces of \<open>s\<close> between consecutive occurrences of the space
  character U+0020, empty pieces included; the empty string gives one empty piece.
  (The result is never the empty list, so the first branch of the inner \<open>case\<close> is
  never taken.)
\<close>

fun js_split_space :: "string \<Rightarrow> string list" where
  "js_split_space [] = [[]]"
| "js_split_space (c # cs) =
     (if c = CHR '' '' then [] # js_split_space cs
      else (case js_split_space cs of
              [] \<Rightarrow> [[c]]
            | w # ws \<Rightarrow> (c # w) # ws))"

text \<open>\<open>s.split(' ').filter((s) => s.length)\<close>, the expression of lines 44--49.\<close>

definition classTokens :: "string \<Rightarrow> string list" where
  "classTokens s = filter (\<lambda>t. length t \<noteq> 0) (js_split_space s)"

text \<open>
  ASCII whitespace as the DOM and HTML standards list it: tab, line feed, form feed,
  carriage return and space.
\<close>

definition is_whitespace :: "char \<Rightarrow> bool" where
  "is_whitespace c = (c \<in> set [CHR 0x09, CHR 0x0A, CHR 0x0C, CHR 0x0D, CHR '' ''])"

text \<open>
  A class-name string is well formed when the space is the only ASCII whitespace in it.
\<close>

definition only_spaces :: "string \<Rightarrow> bool" where
  "only_spaces s = (\<forall>c \<in> set s. is_whitespace c \<longrightarrow> c = CHR '' '')"

subsection \<open>The DOM node\<close>

text \<open>
  The part of the rendered element that the component touches: its class list (the
  DOM's ordered set of tokens) and the \<open>display\<close> property of its inline style, where
  \<open>None\<close> stands for no inline value (what assigning \<open>null\<close> leaves).
\<close>

record node =
  classList :: "string list"
  display :: "string option"

text \<open>
  The exceptions of this part: the \<open>TypeError\<close> of a property read on \<open>null\<close>, and the two
  that \<open>classList.add\<close> and \<open>classList.remove\<close> throw.
\<close>

datatype error = TypeError | SyntaxError | InvalidCharacterError

text \<open>
  Both methods first go through their arguments in order: an empty token is a
  \<open>SyntaxError\<close>, a token that contains ASCII whitespace an \<open>InvalidCharacterError\<close>.
  Nothing is changed when one of them is thrown.
\<close>

fun validate_tokens :: "string list \<Rightarrow> error option" where
  "validate_tokens [] = None"
| "validate_tokens (t # ts) =
     (if t = [] then Some SyntaxError
      else if list_ex is_whitespace t then Some InvalidCharacterError
      else validate_tokens ts)"

text \<open>Appending each token that is not yet present, in order.\<close>

fun append_tokens :: "string list \<Rightarrow> string list \<Rightarrow> string list" where
  "append_tokens cl [] = cl"
| "append_tokens cl (t # ts) = append_tokens (if t \<in> set cl then cl else cl @ [t]) ts"

text \<open>\<open>classList.add(...tokens)\<close>.\<close>

definition classList_add :: "string list \<Rightarrow> string list \<Rightarrow> error + string list" where
  "classList_add cl ts =
     (case validate_tokens ts of
        Some e \<Rightarrow> Inl e
      | None \<Rightarrow> Inr (append_tokens cl ts))"

text \<open>\<open>classList.remove(...tokens)\<close>, which deletes every listed token.\<close>

definition classList_remove :: "string list \<Rightarrow> string list \<Rightarrow> error + string list" where
  "classList_remove cl ts =
     (case validate_tokens ts of
        Some e \<Rightarrow> Inl e
      | None \<Rightarrow> Inr (filter (\<lambda>c. c \<notin> set ts) cl))"

subsection \<open>CSSTransition\<close>

text \<open>
  The props of \<open>CSSTransition\<close>, defaults applied (a missing class-name prop is the empty
  string). \<open>show_p\<close> is the prop \<open>show\<close>; \<open>className\<close> is the class attribute that the
  pass-through props \<open>rest\<close> give the element, as the tokens the DOM reads from it.
\<close>

record props =
  show_p :: jsbool
  enter :: string
  enterStart :: string
  enterEnd :: string
  leave :: string
  leaveStart :: string
  leaveEnd :: string
  appear :: jsbool
  unmountOnExit :: bool
  className :: "string list"

definition enterClasses :: "props \<Rightarrow> string list" where
  "enterClasses p = classTokens (enter p)"

definition enterStartClasses :: "props \<Rightarrow> string list" where
  "enterStartClasses p = classTokens (enterStart p)"

definition enterEndClasses :: "props \<Rightarrow> string list" where
  "enterEndClasses p = classTokens (enterEnd p)"

definition leaveClasses :: "props \<Rightarrow> string list" where
  "leaveClasses p = classTokens (leave p)"

definition leaveStartClasses :: "props \<Rightarrow> string list" where
  "leaveStartClasses p = classTokens (leaveStart p)"

definition leaveEndClasses :: "props \<Rightarrow> string list" where
  "leaveEndClasses p = classTokens (leaveEnd p)"

definition removeFromDom :: "props \<Rightarrow> bool" where
  "removeFromDom p = unmountOnExit p"

text \<open>
  Lines 52--58. With no classes the DOM method is not called; otherwise its exception,
  if any, is the function's.
\<close>

definition addClasses :: "node \<Rightarrow> string list \<Rightarrow> error + node" where
  "addClasses n classes =
     (if length classes \<noteq> 0
      then (case classList_add (classList n) classes of
              Inl e \<Rightarrow> Inl e
            | Inr cl \<Rightarrow> Inr (n\<lparr>classList := cl\<rparr>))
      else Inr n)"

definition removeClasses :: "node \<Rightarrow> string list \<Rightarrow> error + node" where
  "removeClasses n classes =
     (if length classes \<noteq> 0
      then (case classList_remove (classList n) classes of
              Inl e \<Rightarrow> Inl e
            | Inr cl \<Rightarrow> Inr (n\<lparr>classList := cl\<rparr>))
      else Inr n)"

text \<open>
  How a callback ends: it returns and leaves the node as given, or it throws and leaves
  the node as its statements before the throwing one made it.
\<close>

datatype completion = Returned node | Threw error node


text \<open>The six phase callbacks handed to the library (lines 72--93), statement by statement.\<close>

definition onEnter :: "props \<Rightarrow> node \<Rightarrow> completion" where
  "onEnter p n =
     (let n1 = (if \<not> removeFromDom p then n\<lparr>display := None\<rparr> else n)
      in case addClasses n1 (enterClasses p @ enterStartClasses p) of
           Inl e \<Rightarrow> Threw e n1
         | Inr n2 \<Rightarrow> Returned n2)"

definition onEntering :: "props \<Rightarrow> node \<Rightarrow> completion" where
  "onEntering p n =
     (case removeClasses n (enterStartClasses p) of
        Inl e \<Rightarrow> Threw e n
      | Inr n1 \<Rightarrow>
          (case addClasses n1 (enterEndClasses p) of
             Inl e \<Rightarrow> Threw e n1
           | Inr n2 \<Rightarrow> Returned n2))"

definition onEntered :: "props \<Rightarrow> node \<Rightarrow> completion" where
  "onEntered p n =
     (case removeClasses n (enterEndClasses p @ enterClasses p) of
        Inl e \<Rightarrow> Threw e n
      | Inr n1 \<Rightarrow> Returned n1)"

definition onExit :: "props \<Rightarrow> node \<Rightarrow> completion" where
  "onExit p n =
     (case addClasses n (leaveClasses p @ leaveStartClasses p) of
        Inl e \<Rightarrow> Threw e n
      | Inr n1 \<Rightarrow> Returned n1)"

definition onExiting :: "props \<Rightarrow> node \<Rightarrow> completion" where
  "onExiting p n =
     (case removeClasses n (leaveStartClasses p) of
        Inl e \<Rightarrow> Threw e n
      | Inr n1 \<Rightarrow>
          (case addClasses n1 (leaveEndClasses p) of
             Inl e \<Rightarrow> Threw e n1
           | Inr n2 \<Rightarrow> Returned n2))"

definition onExited :: "props \<Rightarrow> node \<Rightarrow> completion" where
  "onExited p n =
     (case removeClasses n (leaveEndClasses p @ leaveClasses p) of
        Inl e \<Rightarrow> Threw e n
      | Inr n1 \<Rightarrow> Returned (if \<not> removeFromDom p then n1\<lparr>display := Some ''none''\<rparr> else n1))"

text \<open>
  The element as line 95 renders it: \<open>style={{ display: !removeFromDom ? 'none' : null }}\<close>.
\<close>

definition render_node :: "props \<Rightarrow> node" where
  "render_node p =
     \<lparr>classList = className p,
      display = (if \<not> removeFromDom p then Some ''none'' else None)\<rparr>"

subsection \<open>The transition library's callback protocol\<close>

text \<open>
  \<open>CSSTransition\<close> hands its callbacks to the component of the same name of
  react-transition-group, which is not part of this repository. What follows is that
  library's lifecycle as its \<open>Transition\<close> class runs it for the props this file
  passes (\<open>in\<close>, \<open>appear\<close>, \<open>unmountOnExit\<close>, \<open>nodeRef\<close>, \<open>addEndListener\<close> and the six
  callbacks; \<open>enter\<close>, \<open>exit\<close> and \<open>mountOnEnter\<close> keep their defaults): the initial status
  chosen by the constructor, \<open>performEnter\<close> and \<open>performExit\<close>, the update on new props,
  and the end listener that \<open>addEndListener\<close> registers for the node's
  \<open>transitionend\<close> event. The class names that the library puts on the node by itself
  (\<open>enter\<close>, \<open>enter-active\<close>, \<open>enter-done\<close> and their \<open>appear\<close> and \<open>exit\<close> counterparts) are
  left out: \<open>classList\<close> is the node's class list as the \<open>className\<close> prop and the
  callbacks of this file make it. An exception that a callback throws leaves the
  library's lifecycle method with it.
\<close>

datatype status = UNMOUNTED | EXITED | ENTERING | ENTERED | EXITING

datatype call = OnEnter | OnEntering | OnEntered | OnExit | OnExiting | OnExited | AddEndListener

datatype pending = ToEntered | ToExited

text \<open>
  One mounted \<open>CSSTransition\<close>: its current props, the library's status, the element
  behind \<open>nodeRef.current\<close> (\<open>None\<close> while nothing is rendered), the end listener that is
  still armed, and the history of callbacks that returned so far, each with the node as
  it left it.
\<close>

record inst =
  cur_props :: props
  status :: status
  nodeRef :: "node option"
  nextCallback :: "pending option"
  calls :: "(call \<times> node) list"

text \<open>
  The function each prop is bound to in lines 69--93. \<open>addEndListener\<close> only subscribes
  \<open>done\<close> to the node's \<open>transitionend\<close> event.
\<close>

fun callback :: "call \<Rightarrow> props \<Rightarrow> node \<Rightarrow> completion" where
  "callback OnEnter p n = onEnter p n"
| "callback OnEntering p n = onEntering p n"
| "callback OnEntered p n = onEntered p n"
| "callback OnExit p n = onExit p n"
| "callback OnExiting p n = onExiting p n"
| "callback OnExited p n = onExited p n"
| "callback AddEndListener p n = Returned n"

text \<open>
  Every callback dereferences \<open>nodeRef.current\<close>; on \<open>null\<close> that is a \<open>TypeError\<close>.
\<close>

definition invoke :: "call \<Rightarrow> inst \<Rightarrow> error + inst" where
  "invoke c i =
     (case nodeRef i of
        None \<Rightarrow> Inl TypeError
      | Some n \<Rightarrow>
          (case callback c (cur_props i) n of
             Threw e n' \<Rightarrow> Inl e
           | Returned n' \<Rightarrow> Inr (i\<lparr>nodeRef := Some n', calls := calls i @ [(c, n')]\<rparr>)))"

definition performEnter :: "inst \<Rightarrow> error + inst" where
  "performEnter i =
     (case invoke OnEnter i of
        Inl e \<Rightarrow> Inl e
      | Inr i1 \<Rightarrow>
          (case invoke OnEntering (i1\<lparr>status := ENTERING\<rparr>) of
             Inl e \<Rightarrow> Inl e
           | Inr i2 \<Rightarrow>
               (case invoke AddEndListener i2 of
                  Inl e \<Rightarrow> Inl e
                | Inr i3 \<Rightarrow> Inr (i3\<lparr>nextCallback := Some ToEntered\<rparr>))))"

definition performExit :: "inst \<Rightarrow> error + inst" where
  "performExit i =
     (case invoke OnExit i of
        Inl e \<Rightarrow> Inl e
      | Inr i1 \<Rightarrow>
          (case invoke OnExiting (i1\<lparr>status := EXITING\<rparr>) of
             Inl e \<Rightarrow> Inl e
           | Inr i2 \<Rightarrow>
               (case invoke AddEndListener i2 of
                  Inl e \<Rightarrow> Inl e
                | Inr i3 \<Rightarrow> Inr (i3\<lparr>nextCallback := Some ToExited\<rparr>))))"

text \<open>
  Mounting: the constructor's choice of the initial status, the first render, and
  \<open>componentDidMount\<close>, which performs the enter transition when \<open>in\<close> and \<open>appear\<close> are
  both truthy.
\<close>

definition mount :: "props \<Rightarrow> error + inst" where
  "mount p =
     (let rendered = \<lparr>cur_props = p, status = EXITED, nodeRef = Some (render_node p),
                       nextCallback = None, calls = []\<rparr>
      in if truthy (show_p p) then
           (if truthy (appear p) then performEnter rendered
            else Inr (rendered\<lparr>status := ENTERED\<rparr>))
         else if unmountOnExit p then Inr (rendered\<lparr>status := UNMOUNTED, nodeRef := None\<rparr>)
         else Inr rendered)"

text \<open>
  A re-render with new props: an unmounted instance whose \<open>in\<close> became truthy is rendered
  again (\<open>getDerivedStateFromProps\<close>); then \<open>componentDidUpdate\<close> starts the enter or the
  exit transition, cancelling the armed end listener, or unmounts an exited instance.
\<close>

definition update :: "props \<Rightarrow> inst \<Rightarrow> error + inst" where
  "update p i =
     (let i1 = i\<lparr>cur_props := p\<rparr>;
          i2 = (if truthy (show_p p) \<and> status i1 = UNMOUNTED
                then i1\<lparr>status := EXITED, nodeRef := Some (render_node p)\<rparr> else i1)
      in if truthy (show_p p) then
           (if status i2 \<noteq> ENTERING \<and> status i2 \<noteq> ENTERED
            then performEnter (i2\<lparr>nextCallback := None\<rparr>) else Inr i2)
         else if status i2 = ENTERING \<or> status i2 = ENTERED
           then performExit (i2\<lparr>nextCallback := None\<rparr>)
         else if unmountOnExit p \<and> status i2 = EXITED
           then Inr (i2\<lparr>status := UNMOUNTED, nodeRef := None\<rparr>)
         else Inr i2)"

text \<open>
  The node's \<open>transitionend\<close> event: the armed listener, if any, moves the instance to
  its final status and runs \<open>onEntered\<close> or \<open>onExited\<close>; an exited instance with
  \<open>unmountOnExit\<close> is then unmounted.
\<close>

definition transitionend :: "inst \<Rightarrow> error + inst" where
  "transitionend i =
     (case nextCallback i of
        None \<Rightarrow> Inr i
      | Some ToEntered \<Rightarrow> invoke OnEntered (i\<lparr>status := ENTERED, nextCallback := None\<rparr>)
      | Some ToExited \<Rightarrow>
          (case invoke OnExited (i\<lparr>status := EXITED, nextCallback := None\<rparr>) of
             Inl e \<Rightarrow> Inl e
           | Inr i1 \<Rightarrow>
               Inr (if unmountOnExit (cur_props i1)
                    then i1\<lparr>status := UNMOUNTED, nodeRef := None\<rparr> else i1)))"

text \<open>Sequencing: the next step runs on the result of the previous one unless that failed.\<close>

definition and_then :: "error + 'a \<Rightarrow> ('a \<Rightarrow> error + 'b) \<Rightarrow> error + 'b" where
  "and_then r f = (case r of Inl e \<Rightarrow> Inl e | Inr x \<Rightarrow> f x)"

subsection \<open>useIsInitialRender and Transition\<close>

text \<open>
  \<open>useIsInitialRender\<close> keeps a ref that starts as \<open>true\<close>; a render returns the ref's
  current value, and the effect with the empty dependency list, run once after the
  first commit, stores \<open>false\<close>. \<open>ref_at k\<close> is the ref when render number \<open>k\<close> starts
  (the first render is number 0).
\<close>

definition useRef_initial :: bool where
  "useRef_initial = True"

definition mount_effect :: "bool \<Rightarrow> bool" where
  "mount_effect r = False"

fun ref_at :: "nat \<Rightarrow> bool" where
  "ref_at 0 = useRef_initial"
| "ref_at (Suc k) = (if k = 0 then mount_effect (ref_at k) else ref_at k)"

definition useIsInitialRender :: "nat \<Rightarrow> bool" where
  "useIsInitialRender k = ref_at k"

text \<open>
  The value of \<open>TransitionContext\<close>: the field \<open>parent\<close>, whose own fields are absent in
  the default value \<open>{ parent: {} }\<close>.
\<close>

record parent_state =
  parent_show :: jsbool
  parent_isInitialRender :: jsbool
  parent_appear :: jsbool

definition default_parent :: parent_state where
  "default_parent = \<lparr>parent_show = None, parent_isInitialRender = None, parent_appear = None\<rparr>"

text \<open>
  One render of \<open>Transition\<close> (lines 111--145) under the context value \<open>parent\<close>, with the
  hook's result \<open>isInitialRender\<close> and the props \<open>p\<close> (its own \<open>show\<close> and \<open>appear\<close> among
  them). The result is the value it provides to its descendants, if it provides one,
  and the props it passes to \<open>CSSTransition\<close>.
\<close>

definition Transition :: "parent_state \<Rightarrow> bool \<Rightarrow> props \<Rightarrow> parent_state option \<times> props" where
  "Transition parent isInitialRender p =
     (let isChild = (show_p p = None)
      in if isChild then
           (None,
            p\<lparr>appear := js_or (parent_appear parent) (js_not (parent_isInitialRender parent)),
              show_p := parent_show parent\<rparr>)
         else
           (Some \<lparr>parent_show = show_p p,
                  parent_isInitialRender = Some isInitialRender,
                  parent_appear = appear p\<rparr>,
            p))"

text \<open>
  The context value under which the descendants of an instance render, when the
  instance's render number \<open>k\<close> ran with the props \<open>root\<close> under the default context.
\<close>

definition published :: "nat \<Rightarrow> props \<Rightarrow> parent_state" where
  "published k root =
     (case fst (Transition default_parent (useIsInitialRender k) root) of
        None \<Rightarrow> default_parent
      | Some st \<Rightarrow> st)"

section \<open>The service-worker registration (src/utils/Transition.js, lines 147--315)\<close>

subsection \<open>The page and the platform\<close>

text \<open>
  What the code reads from its environment: the two build variables, whether
  \<open>navigator\<close> has a \<open>serviceWorker\<close> property, and the page's location.
  \<open>publicUrl_origin\<close> is the origin of \<open>new URL(process.env.PUBLIC_URL,
  window.location.href)\<close>; the URL parser belongs to the browser.
\<close>

record env =
  NODE_ENV :: string
  PUBLIC_URL :: string
  serviceWorker_in_navigator :: bool
  publicUrl_origin :: string
  location_origin :: string
  location_hostname :: string

text \<open>
  Lines 161--169. \<open>octet\<close> is the alternation
  \<open>25[0-5]|2[0-4][0-9]|[01]?[0-9][0-9]?\<close>; \<open>match_groups k\<close> matches \<open>k\<close> repetitions of a
  dot followed by an octet and then the end of the input, trying every length an octet
  can have.
\<close>

definition is_digit :: "char \<Rightarrow> bool" where
  "is_digit c = (c \<in> set ''0123456789'')"

fun octet :: "string \<Rightarrow> bool" where
  "octet [a] = is_digit a"
| "octet [a, b] = (is_digit a \<and> is_digit b)"
| "octet [a, b, c] =
     ((a = CHR ''2'' \<and> b = CHR ''5'' \<and> c \<in> set ''012345'')
      \<or> (a = CHR ''2'' \<and> b \<in> set ''01234'' \<and> is_digit c)
      \<or> (a \<in> set ''01'' \<and> is_digit b \<and> is_digit c))"
| "octet _ = False"

fun match_groups :: "nat \<Rightarrow> string \<Rightarrow> bool" where
  "match_groups 0 s = (s = [])"
| "match_groups (Suc k) [] = False"
| "match_groups (Suc k) (c # r) =
     (c = CHR ''.'' \<and>
      ((1 \<le> length r \<and> octet (take 1 r) \<and> match_groups k (drop 1 r))
       \<or> (2 \<le> length r \<and> octet (take 2 r) \<and> match_groups k (drop 2 r))
       \<or> (3 \<le> length r \<and> octet (take 3 r) \<and> match_groups k (drop 3 r))))"

definition isLocalhost :: "string \<Rightarrow> bool" where
  "isLocalhost hostname =
     (hostname = ''localhost''
      \<or> hostname = ''[::1]''
      \<or> (take 3 hostname = ''127'' \<and> match_groups 3 (drop 3 hostname)))"

text \<open>
  \<open>s.indexOf(pat)\<close>: the index of the first occurrence of \<open>pat\<close> in \<open>s\<close>, or \<open>-1\<close>.
\<close>

fun indexOf_from :: "nat \<Rightarrow> string \<Rightarrow> string \<Rightarrow> int" where
  "indexOf_from i [] pat = (if pat = [] then int i else - 1)"
| "indexOf_from i (c # cs) pat =
     (if take (length pat) (c # cs) = pat then int i else indexOf_from (Suc i) cs pat)"

definition indexOf :: "string \<Rightarrow> string \<Rightarrow> int" where
  "indexOf s pat = indexOf_from 0 s pat"

text \<open>
  Objects of the platform by identity: registrations, workers, and the promises that
  \<open>fetch\<close>, \<open>navigator.serviceWorker.register\<close> and \<open>registration.unregister\<close> return.
\<close>

type_synonym registration = nat
type_synonym worker = nat
type_synonym promise = nat

datatype worker_state = Parsed | Installing | Installed | Activating | Activated | Redundant

text \<open>
  The argument of \<open>register\<close>: \<open>None\<close> is a missing \<open>config\<close>; each field says whether the
  caller supplied that callback.
\<close>

record config =
  onUpdate :: bool
  onSuccess :: bool

text \<open>
  Everything the code does to the outside, in the order it does it. \<open>CallOnUpdate r\<close> and
  \<open>CallOnSuccess r\<close> are the calls \<open>config.onUpdate(r)\<close> and \<open>config.onSuccess(r)\<close>;
  \<open>UnhandledRejection\<close> records a promise that rejected with no handler attached.
\<close>

datatype effect =
    AddLoadListener
  | Fetch string
  | ServiceWorkerRegister string
  | Unregister registration
  | Reload
  | ConsoleLog string
  | ConsoleError "string list"
  | CallOnUpdate registration
  | CallOnSuccess registration
  | UnhandledRejection

text \<open>How a promise settles.\<close>

datatype outcome =
    Response nat "string option"
  | Registered registration
  | Unregistered bool
  | Rejection string

text \<open>
  The handlers attached to a pending promise: the \<open>then\<close>/\<open>catch\<close> pair of
  \<open>checkValidServiceWorker\<close> (with the \<open>swUrl\<close> and \<open>config\<close> it closes over), the pair of
  \<open>registerValidSW\<close>, and the \<open>then\<close> that reloads after \<open>registration.unregister()\<close>.
\<close>

datatype continuation =
    CheckThen string "config option"
  | RegisterThen "config option"
  | ReloadThen

text \<open>
  The callbacks that \<open>register\<close> attaches to \<open>navigator.serviceWorker.ready\<close>.
\<close>

datatype ready_continuation = LogCacheFirst | UnregisterAndReload

text \<open>What the platform delivers to the page.\<close>

datatype event =
    Load
  | Settled promise outcome
  | ReadyResolved registration
  | UpdateFound registration "worker option"
  | StateChange worker worker_state bool

text \<open>
  \<open>UpdateFound r w\<close> is the \<open>updatefound\<close> event of registration \<open>r\<close> with \<open>w\<close> the value of
  \<open>r.installing\<close>; \<open>StateChange w st c\<close> is the \<open>statechange\<close> event of worker \<open>w\<close> with
  \<open>st\<close> its \<open>state\<close> and \<open>c\<close> whether \<open>navigator.serviceWorker.controller\<close> is set.

  The state of the page: the \<open>load\<close> listeners with the \<open>config\<close> each closes over, the
  pending promises with their handlers, the callbacks waiting on \<open>ready\<close> and the value
  \<open>ready\<close> resolved with, the \<open>onupdatefound\<close> and \<open>onstatechange\<close> handlers by object,
  the next fresh promise, and the effects so far.
\<close>

record page =
  load_listeners :: "config option list"
  promises :: "(promise \<times> continuation) list"
  ready_waiting :: "ready_continuation list"
  ready_value :: "registration option"
  onupdatefound :: "registration \<Rightarrow> config option option"
  onstatechange :: "worker \<Rightarrow> (registration \<times> config option) option"
  next_promise :: promise
  effects :: "effect list"

definition init :: page where
  "init = \<lparr>load_listeners = [], promises = [], ready_waiting = [], ready_value = None,
           onupdatefound = (\<lambda>r. None), onstatechange = (\<lambda>w. None),
           next_promise = 0, effects = []\<rparr>"

definition emit :: "effect \<Rightarrow> page \<Rightarrow> page" where
  "emit e s = s\<lparr>effects := effects s @ [e]\<rparr>"

definition await :: "continuation \<Rightarrow> page \<Rightarrow> page" where
  "await k s = s\<lparr>promises := promises s @ [(next_promise s, k)],
                 next_promise := Suc (next_promise s)\<rparr>"

definition ready_then :: "ready_continuation \<Rightarrow> page \<Rightarrow> page" where
  "ready_then k s = s\<lparr>ready_waiting := ready_waiting s @ [k]\<rparr>"

subsection \<open>registerValidSW, checkValidServiceWorker, register\<close>

text \<open>The four messages the code logs with \<open>console.log\<close> (lines 206, 246, 258 and 299).\<close>

definition msg_cache_first :: string where
  "msg_cache_first =
     ''This web app is being served cache-first by a service ''
     @ ''worker. To learn more, visit https://bit.ly/CRA-PWA''"

definition msg_new_content :: string where
  "msg_new_content =
     ''New content is available and will be used when all ''
     @ ''tabs for this page are closed. See https://bit.ly/CRA-PWA.''"

definition msg_cached :: string where
  "msg_cached = ''Content is cached for offline use.''"

definition msg_offline :: string where
  "msg_offline = ''No internet connection found. App is running in offline mode.''"

text \<open>
  Lines 229--273: the call of \<open>navigator.serviceWorker.register(swUrl)\<close>; its handlers
  wait for the promise.
\<close>

definition registerValidSW :: "string \<Rightarrow> config option \<Rightarrow> page \<Rightarrow> page" where
  "registerValidSW swUrl cfg s = await (RegisterThen cfg) (emit (ServiceWorkerRegister swUrl) s)"

text \<open>Lines 275--303: the call of \<open>fetch(swUrl, ...)\<close>; its handlers wait for the promise.\<close>

definition checkValidServiceWorker :: "string \<Rightarrow> config option \<Rightarrow> page \<Rightarrow> page" where
  "checkValidServiceWorker swUrl cfg s = await (CheckThen swUrl cfg) (emit (Fetch swUrl) s)"

text \<open>Lines 179--217.\<close>

definition register :: "env \<Rightarrow> config option \<Rightarrow> page \<Rightarrow> page" where
  "register e cfg s =
     (if NODE_ENV e = ''production'' \<and> serviceWorker_in_navigator e then
        (if publicUrl_origin e \<noteq> location_origin e then s
         else emit AddLoadListener (s\<lparr>load_listeners := load_listeners s @ [cfg]\<rparr>))
      else s)"

text \<open>The body of the \<open>load\<close> listener, lines 194--215.\<close>

definition on_load :: "env \<Rightarrow> config option \<Rightarrow> page \<Rightarrow> page" where
  "on_load e cfg s =
     (let swUrl = PUBLIC_URL e @ ''/service-worker.js''
      in if isLocalhost (location_hostname e)
         then ready_then LogCacheFirst (checkValidServiceWorker swUrl cfg s)
         else registerValidSW swUrl cfg s)"

text \<open>
  The \<open>onstatechange\<close> handler of lines 241--266, closed over \<open>config\<close> and
  \<open>registration\<close>, run with the worker's state and with whether a controller is set.
\<close>

definition statechange :: "config option \<Rightarrow> registration \<Rightarrow> worker_state \<Rightarrow> bool \<Rightarrow> page \<Rightarrow> page" where
  "statechange cfg registration st controller s =
     (if st = Installed then
        (if controller then
           (let s1 = emit (ConsoleLog msg_new_content) s
            in if (case cfg of None \<Rightarrow> False | Some c \<Rightarrow> onUpdate c)
               then emit (CallOnUpdate registration) s1 else s1)
         else
           (let s1 = emit (ConsoleLog msg_cached) s
            in if (case cfg of None \<Rightarrow> False | Some c \<Rightarrow> onSuccess c)
               then emit (CallOnSuccess registration) s1 else s1))
      else s)"

text \<open>
  What runs when a promise settles: the \<open>then\<close> and \<open>catch\<close> callbacks of lines 280--302,
  233--272 and 289--291. A promise without a rejection handler that rejects is an
  unhandled rejection. The last equation covers outcomes a promise of that kind
  cannot have.
\<close>

fun resume :: "continuation \<Rightarrow> outcome \<Rightarrow> page \<Rightarrow> page" where
  "resume (CheckThen swUrl cfg) (Response st contentType) s =
     (if st = 404 \<or> (case contentType of
                         None \<Rightarrow> False
                       | Some ct \<Rightarrow> indexOf ct ''javascript'' = - 1)
      then ready_then UnregisterAndReload s
      else registerValidSW swUrl cfg s)"
| "resume (CheckThen swUrl cfg) (Rejection r) s = emit (ConsoleLog msg_offline) s"
| "resume (RegisterThen cfg) (Registered reg) s =
     s\<lparr>onupdatefound := (onupdatefound s)(reg := Some cfg)\<rparr>"
| "resume (RegisterThen cfg) (Rejection r) s =
     emit (ConsoleError [''Error during service worker registration:'', r]) s"
| "resume ReloadThen (Unregistered b) s = emit Reload s"
| "resume ReloadThen (Rejection r) s = emit UnhandledRejection s"
| "resume k out s = s"

text \<open>
  The callbacks on \<open>navigator.serviceWorker.ready\<close>: the log of lines 205--210 and the
  unregister-then-reload of lines 288--292.
\<close>

fun run_ready :: "registration \<Rightarrow> ready_continuation \<Rightarrow> page \<Rightarrow> page" where
  "run_ready reg LogCacheFirst s = emit (ConsoleLog msg_cache_first) s"
| "run_ready reg UnregisterAndReload s = await ReloadThen (emit (Unregister reg) s)"

text \<open>
  Once \<open>ready\<close> has resolved, the callbacks waiting on it run in the order they were
  attached, after the code that attached them has finished.
\<close>

definition drain_ready :: "page \<Rightarrow> page" where
  "drain_ready s =
     (case ready_value s of
        None \<Rightarrow> s
      | Some reg \<Rightarrow> fold (run_ready reg) (ready_waiting s) (s\<lparr>ready_waiting := []\<rparr>))"

text \<open>
  One event: every \<open>load\<close> listener runs; a settled promise runs its handlers once; \<open>ready\<close>
  resolves once; \<open>updatefound\<close> runs the handler of lines 235--267, which installs the
  \<open>onstatechange\<close> handler on the installing worker unless there is none.
\<close>

fun handle :: "env \<Rightarrow> event \<Rightarrow> page \<Rightarrow> page" where
  "handle e Load s = fold (on_load e) (load_listeners s) s"
| "handle e (Settled pr out) s =
     (case map_of (promises s) pr of
        None \<Rightarrow> s
      | Some k \<Rightarrow> resume k out (s\<lparr>promises := filter (\<lambda>q. fst q \<noteq> pr) (promises s)\<rparr>))"
| "handle e (ReadyResolved reg) s =
     (case ready_value s of None \<Rightarrow> s\<lparr>ready_value := Some reg\<rparr> | Some r \<Rightarrow> s)"
| "handle e (UpdateFound reg installing) s =
     (case onupdatefound s reg of
        None \<Rightarrow> s
      | Some cfg \<Rightarrow>
          (case installing of
             None \<Rightarrow> s
           | Some w \<Rightarrow> s\<lparr>onstatechange := (onstatechange s)(w := Some (reg, cfg))\<rparr>))"
| "handle e (StateChange w st controller) s =
     (case onstatechange s w of
        None \<Rightarrow> s
      | Some (reg, cfg) \<Rightarrow> statechange cfg reg st controller s)"

definition step :: "env \<Rightarrow> event \<Rightarrow> page \<Rightarrow> page" where
  "step e ev s = drain_ready (handle e ev s)"

definition run :: "env \<Rightarrow> event list \<Rightarrow> page \<Rightarrow> page" where
  "run e evs s = fold (step e) evs s"

subsection \<open>Two stages of a page that called register\<close>

text \<open>
  \<open>listening cfg\<close> holds of a page on which \<open>register\<close> has attached its \<open>load\<close> listener
  and nothing else has happened. \<open>verifying e cfg\<close> holds of a page on a loopback host
  between the \<open>load\<close> event and the settling of the \<open>fetch\<close> of the worker script: the
  fetch is the one pending promise, and the cache-first message is logged once \<open>ready\<close>
  has resolved.
\<close>

definition listening :: "config option \<Rightarrow> page \<Rightarrow> bool" where
  "listening cfg s \<longleftrightarrow>
     load_listeners s = [cfg] \<and> promises s = [] \<and> ready_waiting s = []
     \<and> onupdatefound s = (\<lambda>r. None) \<and> onstatechange s = (\<lambda>w. None)
     \<and> next_promise s = 0 \<and> effects s = [AddLoadListener]"

definition verifying :: "env \<Rightarrow> config option \<Rightarrow> page \<Rightarrow> bool" where
  "verifying e cfg s \<longleftrightarrow>
     load_listeners s = [cfg]
     \<and> promises s = [(0, CheckThen (PUBLIC_URL e @ ''/service-worker.js'') cfg)]
     \<and> onupdatefound s = (\<lambda>r. None) \<and> onstatechange s = (\<lambda>w. None)
     \<and> next_promise s = Suc 0
     \<and> (if ready_value s = None
         then ready_waiting s = [LogCacheFirst]
              \<and> effects s = [AddLoadListener, Fetch (PUBLIC_URL e @ ''/service-worker.js'')]
         else ready_waiting s = []
              \<and> effects s = [AddLoadListener, Fetch (PUBLIC_URL e @ ''/service-worker.js''),
                              ConsoleLog msg_cache_first])"

section \<open>Example instances\<close>

text \<open>
  A fade transition as a page would configure it, with stray spaces in three of the
  class-name props, and a production build served from a loopback host; the theorems
  below are instantiated at them.
\<close>

definition example_props :: props where
  "example_props =
     \<lparr>show_p = Some True,
      enter = ''transition  ease-out'', enterStart = ''opacity-0 '', enterEnd = '' opacity-100'',
      leave = ''transition ease-in'', leaveStart = ''opacity-100'', leaveEnd = ''opacity-0'',
      appear = Some True, unmountOnExit = False, className = [''menu'']\<rparr>"

definition example_env :: env where
  "example_env =
     \<lparr>NODE_ENV = ''production'', PUBLIC_URL = '''', serviceWorker_in_navigator = True,
      publicUrl_origin = ''http://127.0.0.1:3000'', location_origin = ''http://127.0.0.1:3000'',
      location_hostname = ''127.0.0.1''\<rparr>"

section \<open>Properties of the transition component\<close>

subsection \<open>Tokens, class lists and callbacks\<close>

lemma js_split_space_not_Nil: "js_split_space s \<noteq> []"
  by (induction s) (auto split: list.splits)

lemma js_split_space_append_space:
  "js_split_space (a @ CHR '' '' # b) = js_split_space a @ js_split_space b"
proof (induction a)
  case Nil
  show ?case by simp
next
  case (Cons c a)
  obtain w ws where w: "js_split_space a = w # ws"
    using js_split_space_not_Nil [of a] by (cases "js_split_space a") auto
  with Cons show ?case by simp
qed

lemma js_split_space_word: "CHR '' '' \<notin> set w \<Longrightarrow> js_split_space w = [w]"
  by (induction w) auto

lemma js_split_space_no_space: "t \<in> set (js_split_space s) \<Longrightarrow> CHR '' '' \<notin> set t"
proof (induction s arbitrary: t)
  case Nil
  then show ?case by simp
next
  case (Cons c s)
  obtain w ws where w: "js_split_space s = w # ws"
    using js_split_space_not_Nil [of s] by (cases "js_split_space s") auto
  show ?case
  proof (cases "c = CHR '' ''")
    case True
    with Cons show ?thesis by auto
  next
    case False
    with Cons.prems w have "t = c # w \<or> t \<in> set ws" by simp
    moreover have "CHR '' '' \<notin> set w" using Cons.IH [of w] w by simp
    moreover have "t \<in> set ws \<Longrightarrow> CHR '' '' \<notin> set t" using Cons.IH [of t] w by simp
    ultimately show ?thesis using False by auto
  qed
qed

lemma concat_js_split_space: "concat (js_split_space s) = filter (\<lambda>c. c \<noteq> CHR '' '') s"
proof (induction s)
  case Nil
  show ?case by simp
next
  case (Cons c s)
  obtain w ws where w: "js_split_space s = w # ws"
    using js_split_space_not_Nil [of s] by (cases "js_split_space s") auto
  with Cons show ?case by auto
qed

lemma classTokens_Nil: "classTokens [] = []"
  by (simp add: classTokens_def)

lemma classTokens_append_space:
  "classTokens (a @ CHR '' '' # b) = classTokens a @ classTokens b"
  by (simp add: classTokens_def js_split_space_append_space)

lemma classTokens_word: "w \<noteq> [] \<Longrightarrow> CHR '' '' \<notin> set w \<Longrightarrow> classTokens w = [w]"
  by (simp add: classTokens_def js_split_space_word)

lemma classTokens_token: "t \<in> set (classTokens s) \<Longrightarrow> t \<noteq> [] \<and> CHR '' '' \<notin> set t"
  by (auto simp: classTokens_def dest: js_split_space_no_space)

lemma concat_classTokens: "concat (classTokens s) = filter (\<lambda>c. c \<noteq> CHR '' '') s"
proof -
  have "concat (filter (\<lambda>t. t \<noteq> []) xs) = concat xs" for xs :: "string list"
    by (induction xs) auto
  then show ?thesis by (simp add: classTokens_def concat_js_split_space)
qed

lemma validate_tokens_nonempty:
  "\<forall>t \<in> set ts. t \<noteq> [] \<Longrightarrow>
   validate_tokens ts =
     (if \<exists>t \<in> set ts. \<exists>c \<in> set t. is_whitespace c then Some InvalidCharacterError else None)"
  by (induction ts) (auto simp: list_ex_iff)

lemma whitespace_in_classTokens:
  "(\<exists>t \<in> set (classTokens s). \<exists>c \<in> set t. is_whitespace c) \<longleftrightarrow> \<not> only_spaces s"
proof -
  have "(\<exists>t \<in> set (classTokens s). \<exists>c \<in> set t. is_whitespace c)
      \<longleftrightarrow> (\<exists>c \<in> set (concat (classTokens s)). is_whitespace c)"
    by auto
  also have "\<dots> \<longleftrightarrow> (\<exists>c \<in> set s. c \<noteq> CHR '' '' \<and> is_whitespace c)"
    by (auto simp: concat_classTokens)
  also have "\<dots> \<longleftrightarrow> \<not> only_spaces s"
    by (auto simp: only_spaces_def)
  finally show ?thesis .
qed

lemma validate_classTokens:
  "validate_tokens (classTokens s) = (if only_spaces s then None else Some InvalidCharacterError)"
proof -
  have "\<forall>t \<in> set (classTokens s). t \<noteq> []" using classTokens_token by blast
  from validate_tokens_nonempty [OF this] show ?thesis
    by (simp add: whitespace_in_classTokens)
qed

lemma validate_classTokens_append:
  "validate_tokens (classTokens a @ classTokens b) =
     (if only_spaces a \<and> only_spaces b then None else Some InvalidCharacterError)"
proof -
  have "\<forall>t \<in> set (classTokens a @ classTokens b). t \<noteq> []"
    using classTokens_token by auto
  from validate_tokens_nonempty [OF this]
    whitespace_in_classTokens [of a] whitespace_in_classTokens [of b]
  show ?thesis by (auto simp: Bex_def)
qed

lemma set_append_tokens: "set (append_tokens cl ts) = set cl \<union> set ts"
  by (induction ts arbitrary: cl) auto

lemma addClasses_valid:
  "validate_tokens cs = None \<Longrightarrow>
   addClasses n cs = Inr (n\<lparr>classList := append_tokens (classList n) cs\<rparr>)"
  by (cases cs) (simp_all add: addClasses_def classList_add_def)

lemma removeClasses_valid:
  "validate_tokens cs = None \<Longrightarrow>
   removeClasses n cs = Inr (n\<lparr>classList := filter (\<lambda>c. c \<notin> set cs) (classList n)\<rparr>)"
  by (cases cs) (simp_all add: removeClasses_def classList_remove_def)

lemma addClasses_invalid: "validate_tokens cs = Some e \<Longrightarrow> addClasses n cs = Inl e"
  by (cases cs) (simp_all add: addClasses_def classList_add_def)







lemma onExit_Returned:
  assumes "only_spaces (leave p)" "only_spaces (leaveStart p)"
  shows "\<exists>n'. onExit p n = Returned n'
     \<and> set (classList n') = set (classList n) \<union> set (classTokens (leave p))
          \<union> set (classTokens (leaveStart p))
     \<and> display n' = display n"
  using assms
  by (simp add: onExit_def leaveClasses_def leaveStartClasses_def
      addClasses_valid validate_classTokens_append set_append_tokens Un_assoc)

lemma onExiting_Returned:
  assumes "only_spaces (leaveStart p)" "only_spaces (leaveEnd p)"
  shows "\<exists>n'. onExiting p n = Returned n'
     \<and> set (classList n') = set (classList n) - set (classTokens (leaveStart p))
          \<union> set (classTokens (leaveEnd p))
     \<and> display n' = display n"
  using assms
  by (auto simp: onExiting_def leaveStartClasses_def leaveEndClasses_def
      addClasses_valid removeClasses_valid validate_classTokens set_append_tokens)

lemma onExited_Returned:
  assumes "only_spaces (leaveEnd p)" "only_spaces (leave p)"
  shows "\<exists>n'. onExited p n = Returned n'
     \<and> set (classList n') = set (classList n)
          - (set (classTokens (leaveEnd p)) \<union> set (classTokens (leave p)))
     \<and> display n' = (if unmountOnExit p then display n else Some ''none'')"
  using assms
  by (auto simp: onExited_def leaveClasses_def leaveEndClasses_def removeFromDom_def
      removeClasses_valid validate_classTokens_append)









subsection \<open>The library's protocol\<close>

lemma invoke_Returned:
  "nodeRef i = Some n \<Longrightarrow> callback c (cur_props i) n = Returned n' \<Longrightarrow>
   invoke c i = Inr (i\<lparr>nodeRef := Some n', calls := calls i @ [(c, n')]\<rparr>)"
  by (simp add: invoke_def)


lemma performExit_Returned:
  assumes "nodeRef i = Some n" "onExit (cur_props i) n = Returned n1"
    "onExiting (cur_props i) n1 = Returned n2"
  shows "performExit i =
     Inr (i\<lparr>status := EXITING, nodeRef := Some n2, nextCallback := Some ToExited,
            calls := calls i @ [(OnExit, n1), (OnExiting, n2), (AddEndListener, n2)]\<rparr>)"
  using assms by (simp add: performExit_def invoke_Returned)


lemma mount_hidden:
  "\<not> truthy (show_p p) \<Longrightarrow>
   mount p = Inr \<lparr>cur_props = p,
                  status = (if unmountOnExit p then UNMOUNTED else EXITED),
                  nodeRef = (if unmountOnExit p then None else Some (render_node p)),
                  nextCallback = None, calls = []\<rparr>"
  by (simp add: mount_def Let_def)





lemma transitionend_exiting:
  assumes "nextCallback i = Some ToExited" "nodeRef i = Some n"
    "onExited (cur_props i) n = Returned n'"
  shows "transitionend i =
     Inr (i\<lparr>status := (if unmountOnExit (cur_props i) then UNMOUNTED else EXITED),
            nextCallback := None,
            nodeRef := (if unmountOnExit (cur_props i) then None else Some n'),
            calls := calls i @ [(OnExited, n')]\<rparr>)"
  using assms by (simp add: transitionend_def invoke_Returned)

lemma update_leave:
  assumes "\<not> truthy (show_p p)" "status i = ENTERING \<or> status i = ENTERED" "nodeRef i = Some n"
    "onExit p n = Returned n1" "onExiting p n1 = Returned n2"
  shows "update p i =
     Inr (i\<lparr>cur_props := p, status := EXITING, nodeRef := Some n2,
            nextCallback := Some ToExited,
            calls := calls i @ [(OnExit, n1), (OnExiting, n2), (AddEndListener, n2)]\<rparr>)"
  using assms by (auto simp: update_def Let_def performExit_Returned)

lemma ref_at_eq: "ref_at k = (k = 0)"
  by (induction k) (auto simp: useRef_initial_def mount_effect_def)

lemma useIsInitialRender_eq: "useIsInitialRender k = (k = 0)"
  by (simp add: useIsInitialRender_def ref_at_eq)

lemma published_root:
  "show_p root \<noteq> None \<Longrightarrow>
   published k root =
     \<lparr>parent_show = show_p root, parent_isInitialRender = Some (k = 0),
      parent_appear = appear root\<rparr>"
  by (cases "show_p root") (simp_all add: published_def Transition_def Let_def useIsInitialRender_eq)

lemma Transition_child:
  "show_p child = None \<Longrightarrow>
   snd (Transition parent r child) =
     child\<lparr>appear := js_or (parent_appear parent) (js_not (parent_isInitialRender parent)),
           show_p := parent_show parent\<rparr>"
  by (simp add: Transition_def Let_def)


lemma update_not_shown:
  assumes "\<not> truthy (show_p p)" "nodeRef i = Some n"
    and "only_spaces (leave p)" "only_spaces (leaveStart p)" "only_spaces (leaveEnd p)"
  shows "\<exists>i'. update p i = Inr i' \<and> status i' \<in> {EXITING, EXITED, UNMOUNTED}
     \<and> fst ` set (calls i') \<subseteq> fst ` set (calls i) \<union> {OnExit, OnExiting, AddEndListener}"
proof (cases "status i = ENTERING \<or> status i = ENTERED")
  case True
  from onExit_Returned [OF assms(3,4), of n] obtain n1 where n1: "onExit p n = Returned n1"
    by blast
  from onExiting_Returned [OF assms(4,5), of n1] obtain n2 where n2: "onExiting p n1 = Returned n2"
    by blast
  from update_leave [OF assms(1) True assms(2) n1 n2] show ?thesis by auto
next
  case False
  with assms(1,2) show ?thesis
    by (cases "status i") (auto simp: update_def Let_def)
qed

lemma update_leave_then_hidden:
  assumes "\<not> truthy (show_p p)" "status i = ENTERING \<or> status i = ENTERED" "nodeRef i = Some n"
    and "only_spaces (leave p)" "only_spaces (leaveStart p)" "only_spaces (leaveEnd p)"
  shows "\<exists>i' i''. update p i = Inr i' \<and> status i' = EXITING
     \<and> map fst (calls i') = map fst (calls i) @ [OnExit, OnExiting, AddEndListener]
     \<and> transitionend i' = Inr i''
     \<and> status i'' = (if unmountOnExit p then UNMOUNTED else EXITED)
     \<and> map fst (calls i'') = map fst (calls i') @ [OnExited]
     \<and> map_option display (nodeRef i'') = (if unmountOnExit p then None else Some (Some ''none''))"
proof -
  from onExit_Returned [OF assms(4,5), of n] obtain n1 where n1: "onExit p n = Returned n1"
    by blast
  from onExiting_Returned [OF assms(5,6), of n1] obtain n2 where n2: "onExiting p n1 = Returned n2"
    by blast
  from onExited_Returned [OF assms(6,4), of n2] obtain n3 where n3: "onExited p n2 = Returned n3"
    "display n3 = (if unmountOnExit p then display n2 else Some ''none'')"
    by blast
  let ?i' = "i\<lparr>cur_props := p, status := EXITING, nodeRef := Some n2,
            nextCallback := Some ToExited,
            calls := calls i @ [(OnExit, n1), (OnExiting, n2), (AddEndListener, n2)]\<rparr>"
  have u: "update p i = Inr ?i'" using assms(1-3) n1 n2 by (rule update_leave)
  have t: "transitionend ?i' =
     Inr (?i'\<lparr>status := (if unmountOnExit (cur_props ?i') then UNMOUNTED else EXITED),
            nextCallback := None,
            nodeRef := (if unmountOnExit (cur_props ?i') then None else Some n3),
            calls := calls ?i' @ [(OnExited, n3)]\<rparr>)"
    by (rule transitionend_exiting [where n = n2]) (simp_all add: n3(1))
  show ?thesis
    unfolding u
    by (intro exI conjI, rule refl, simp, simp, rule t) (simp_all add: n3(2))
qed

subsection \<open>The example props\<close>

lemma example_only_spaces:
  "only_spaces (enter example_props)" "only_spaces (enterStart example_props)"
  "only_spaces (enterEnd example_props)" "only_spaces (leave example_props)"
  "only_spaces (leaveStart example_props)" "only_spaces (leaveEnd example_props)"
  by code_simp+


subsection \<open>The claims about the transition component\<close>

text \<open>
  Claim C2. The class-name strings are split at the space character (U+0020) only, and
  the empty pieces are dropped. The string \<open>a\<close>, space, \<open>b\<close> gives the tokens \<open>a\<close> and
  \<open>b\<close>, and \<open>onEnter\<close> puts both on the node. The string \<open>a\<close>, tab, \<open>b\<close> is delimited by
  whitespace as well, yet it gives one token that still holds the tab. \<open>classList.add\<close>
  refuses a token with ASCII whitespace in it: \<open>onEnter\<close> throws \<open>InvalidCharacterError\<close>
  once it has cleared \<open>display\<close> and before any class is on the node, and mounting the
  instance with \<open>show\<close> and \<open>appear\<close> ends with that exception where the same props with
  a space in place of the tab start the enter phase.
\<close>

theorem tab_in_class_string_throws:
  "is_whitespace (CHR 0x09)
   \<and> classTokens ''a b'' = [''a'', ''b'']
   \<and> classTokens [CHR ''a'', CHR 0x09, CHR ''b''] = [[CHR ''a'', CHR 0x09, CHR ''b'']]
   \<and> onEnter (example_props\<lparr>enter := ''a b''\<rparr>) (render_node example_props)
       = Returned \<lparr>classList = [''menu'', ''a'', ''b'', ''opacity-0''], display = None\<rparr>
   \<and> onEnter (example_props\<lparr>enter := [CHR ''a'', CHR 0x09, CHR ''b'']\<rparr>) (render_node example_props)
       = Threw InvalidCharacterError \<lparr>classList = [''menu''], display = None\<rparr>
   \<and> mount (example_props\<lparr>enter := [CHR ''a'', CHR 0x09, CHR ''b'']\<rparr>) = Inl InvalidCharacterError
   \<and> (case mount (example_props\<lparr>enter := ''a b''\<rparr>) of
         Inl e \<Rightarrow> None
       | Inr i \<Rightarrow> Some (status i, map_option classList (nodeRef i)))
       = Some (ENTERING, Some [''menu'', ''a'', ''b'', ''opacity-100''])"
  by code_simp





text \<open>
  Claim C4, as amended. A child instance (its \<open>show\<close> is absent) that renders under the
  value published by any render \<open>k\<close> of a parent with \<open>show = false\<close> passes \<open>in = false\<close> to
  its \<open>CSSTransition\<close>, whatever its own \<open>appear\<close> prop \<open>a\<close> is. Mounted with these props it
  is hidden: no callback has run, and it is either not rendered (\<open>unmountOnExit\<close>) or
  rendered with \<open>display: none\<close> and only its own \<open>className\<close>. An already rendered
  child with well-formed \<open>leave\<close>, \<open>leaveStart\<close> and \<open>leaveEnd\<close> strings that receives
  these props never enters, and the only callbacks the update may run are those of the
  leave phase: a child that was entering or shown runs the leave phase and is hidden
  when the node's \<open>transitionend\<close> event ends it.
\<close>

theorem child_hidden_or_leaving_under_hidden_parent:
  assumes "show_p child = None" and "show_p root = Some False"
  shows "\<exists>h. show_p (snd (Transition (published k root) r child)) = Some False
     \<and> snd (Transition (published k root) r (child\<lparr>appear := a\<rparr>))
         = snd (Transition (published k root) r child)
     \<and> mount (snd (Transition (published k root) r child)) = Inr h
     \<and> status h = (if unmountOnExit child then UNMOUNTED else EXITED)
     \<and> nodeRef h = (if unmountOnExit child then None
                 else Some \<lparr>classList = className child, display = Some ''none''\<rparr>)
     \<and> calls h = []
     \<and> (only_spaces (leave child) \<and> only_spaces (leaveStart child)
          \<and> only_spaces (leaveEnd child) \<longrightarrow>
         (\<forall>i n. nodeRef i = Some n \<longrightarrow>
          (\<exists>i'. update (snd (Transition (published k root) r child)) i = Inr i'
             \<and> status i' \<in> {EXITING, EXITED, UNMOUNTED}
             \<and> fst ` set (calls i') \<subseteq> fst ` set (calls i) \<union> {OnExit, OnExiting, AddEndListener}))
       \<and> (\<forall>i n. nodeRef i = Some n \<and> (status i = ENTERING \<or> status i = ENTERED) \<longrightarrow>
          (\<exists>i' i''. update (snd (Transition (published k root) r child)) i = Inr i'
             \<and> status i' = EXITING
             \<and> map fst (calls i') = map fst (calls i) @ [OnExit, OnExiting, AddEndListener]
             \<and> transitionend i' = Inr i''
             \<and> status i'' = (if unmountOnExit child then UNMOUNTED else EXITED)
             \<and> map fst (calls i'') = map fst (calls i') @ [OnExited]
             \<and> map_option display (nodeRef i'')
                 = (if unmountOnExit child then None else Some (Some ''none'')))))"
proof -
  let ?cp = "snd (Transition (published k root) r child)"
  have pub: "parent_show (published k root) = Some False"
    using assms(2) by (simp add: published_root)
  have sh: "show_p ?cp = Some False"
    using assms(1) pub by (simp add: Transition_child)
  have same: "snd (Transition (published k root) r (child\<lparr>appear := a\<rparr>)) = ?cp"
    using assms(1) by (simp add: Transition_child)
  have nt: "\<not> truthy (show_p ?cp)" using sh by (simp add: truthy_def)
  have un: "unmountOnExit ?cp = unmountOnExit child" "className ?cp = className child"
    "leave ?cp = leave child" "leaveStart ?cp = leaveStart child" "leaveEnd ?cp = leaveEnd child"
    using assms(1) by (simp_all add: Transition_child)
  have m: "mount ?cp = Inr \<lparr>cur_props = ?cp,
                  status = (if unmountOnExit child then UNMOUNTED else EXITED),
                  nodeRef = (if unmountOnExit child then None
                         else Some \<lparr>classList = className child, display = Some ''none''\<rparr>),
                  nextCallback = None, calls = []\<rparr>"
    using mount_hidden [OF nt] un by (simp add: render_node_def removeFromDom_def)
  have up: "\<forall>i n. nodeRef i = Some n \<longrightarrow>
          (\<exists>i'. update ?cp i = Inr i'
             \<and> status i' \<in> {EXITING, EXITED, UNMOUNTED}
             \<and> fst ` set (calls i') \<subseteq> fst ` set (calls i) \<union> {OnExit, OnExiting, AddEndListener})"
    if "only_spaces (leave child)" "only_spaces (leaveStart child)" "only_spaces (leaveEnd child)"
    using update_not_shown [OF nt] that unfolding un by blast
  have lv: "\<forall>i n. nodeRef i = Some n \<and> (status i = ENTERING \<or> status i = ENTERED) \<longrightarrow>
          (\<exists>i' i''. update ?cp i = Inr i'
             \<and> status i' = EXITING
             \<and> map fst (calls i') = map fst (calls i) @ [OnExit, OnExiting, AddEndListener]
             \<and> transitionend i' = Inr i''
             \<and> status i'' = (if unmountOnExit child then UNMOUNTED else EXITED)
             \<and> map fst (calls i'') = map fst (calls i') @ [OnExited]
             \<and> map_option display (nodeRef i'')
                 = (if unmountOnExit child then None else Some (Some ''none'')))"
    if "only_spaces (leave child)" "only_spaces (leaveStart child)" "only_spaces (leaveEnd child)"
    using update_leave_then_hidden [OF nt] that unfolding un by blast
  show ?thesis
    using sh same m up lv by simp
qed

theorem child_hidden_or_leaving_under_hidden_parent_witness:
  "show_p (example_props\<lparr>show_p := None\<rparr>) = None
   \<and> show_p (example_props\<lparr>show_p := Some False\<rparr>) = Some False
   \<and> only_spaces (leave (example_props\<lparr>show_p := None\<rparr>))
   \<and> only_spaces (leaveStart (example_props\<lparr>show_p := None\<rparr>))
   \<and> only_spaces (leaveEnd (example_props\<lparr>show_p := None\<rparr>))
   \<and> (\<exists>h. mount (snd (Transition (published 1 (example_props\<lparr>show_p := Some False\<rparr>)) True
                (example_props\<lparr>show_p := None\<rparr>))) = Inr h
          \<and> status h = EXITED \<and> calls h = []
          \<and> nodeRef h = Some \<lparr>classList = [''menu''], display = Some ''none''\<rparr>)
   \<and> (\<exists>i' i''. update (snd (Transition (published 1 (example_props\<lparr>show_p := Some False\<rparr>)) True
                (example_props\<lparr>show_p := None\<rparr>)))
            \<lparr>cur_props = example_props, status = ENTERED,
             nodeRef = Some \<lparr>classList = [''menu''], display = None\<rparr>,
             nextCallback = None, calls = []\<rparr> = Inr i'
          \<and> status i' = EXITING
          \<and> map fst (calls i') = [OnExit, OnExiting, AddEndListener]
          \<and> transitionend i' = Inr i''
          \<and> status i'' = EXITED
          \<and> map fst (calls i'') = [OnExit, OnExiting, AddEndListener, OnExited]
          \<and> map_option display (nodeRef i'') = Some (Some ''none''))"
proof -
  let ?c = "example_props\<lparr>show_p := None\<rparr>"
  let ?r = "example_props\<lparr>show_p := Some False\<rparr>"
  let ?cp = "snd (Transition (published 1 ?r) True ?c)"
  let ?i = "\<lparr>cur_props = example_props, status = ENTERED,
             nodeRef = Some \<lparr>classList = [''menu''], display = None\<rparr>,
             nextCallback = None, calls = []\<rparr>"
  have a: "show_p ?c = None" and b: "show_p ?r = Some False" by simp_all
  have c: "\<not> unmountOnExit ?c" "className ?c = [''menu'']" by (simp_all add: example_props_def)
  have os: "only_spaces (leave ?c)" "only_spaces (leaveStart ?c)" "only_spaces (leaveEnd ?c)"
    using example_only_spaces by simp_all
  have i: "nodeRef ?i = Some \<lparr>classList = [''menu''], display = None\<rparr>
      \<and> (status ?i = ENTERING \<or> status ?i = ENTERED)" by simp
  from child_hidden_or_leaving_under_hidden_parent [OF a b, of 1 True "Some True"]
  obtain h where h: "mount ?cp = Inr h"
    "status h = (if unmountOnExit ?c then UNMOUNTED else EXITED)"
    "nodeRef h = (if unmountOnExit ?c then None
                 else Some \<lparr>classList = className ?c, display = Some ''none''\<rparr>)"
    "calls h = []"
    and l: "only_spaces (leave ?c) \<and> only_spaces (leaveStart ?c) \<and> only_spaces (leaveEnd ?c) \<longrightarrow>
       (\<forall>i n. nodeRef i = Some n \<and> (status i = ENTERING \<or> status i = ENTERED) \<longrightarrow>
          (\<exists>i' i''. update ?cp i = Inr i'
             \<and> status i' = EXITING
             \<and> map fst (calls i') = map fst (calls i) @ [OnExit, OnExiting, AddEndListener]
             \<and> transitionend i' = Inr i''
             \<and> status i'' = (if unmountOnExit ?c then UNMOUNTED else EXITED)
             \<and> map fst (calls i'') = map fst (calls i') @ [OnExited]
             \<and> map_option display (nodeRef i'')
                 = (if unmountOnExit ?c then None else Some (Some ''none''))))"
    by blast
  from h c have w1: "\<exists>h. mount ?cp = Inr h
      \<and> status h = EXITED \<and> calls h = []
      \<and> nodeRef h = Some \<lparr>classList = [''menu''], display = Some ''none''\<rparr>"
    by simp
  from l os i obtain i' i'' where e: "update ?cp ?i = Inr i'"
    "status i' = EXITING"
    "map fst (calls i') = map fst (calls ?i) @ [OnExit, OnExiting, AddEndListener]"
    "transitionend i' = Inr i''"
    "status i'' = (if unmountOnExit ?c then UNMOUNTED else EXITED)"
    "map fst (calls i'') = map fst (calls i') @ [OnExited]"
    "map_option display (nodeRef i'')
                 = (if unmountOnExit ?c then None else Some (Some ''none''))"
    by blast
  from e c(1) have w2: "\<exists>i' i''. update ?cp ?i = Inr i'
          \<and> status i' = EXITING
          \<and> map fst (calls i') = [OnExit, OnExiting, AddEndListener]
          \<and> transitionend i' = Inr i''
          \<and> status i'' = EXITED
          \<and> map fst (calls i'') = [OnExit, OnExiting, AddEndListener, OnExited]
          \<and> map_option display (nodeRef i'') = Some (Some ''none'')"
    by simp
  show ?thesis using a b os w1 w2 by (intro conjI) assumption+
qed

text \<open>
  Claim C4 as stated puts every child under a parent with \<open>show = false\<close> in the hidden
  phase. A child that mounted and finished entering while the parent's \<open>show\<close> was true, and
  then renders under the value of the parent's second render with \<open>show = false\<close>, is in
  the leave phase: its status is \<open>exiting\<close>, its node has no \<open>display: none\<close>, and the leave
  callbacks have just run.
\<close>

theorem child_leaving_under_hidden_parent_counterexample:
  "show_p (example_props\<lparr>show_p := None\<rparr>) = None
   \<and> show_p (example_props\<lparr>show_p := Some False\<rparr>) = Some False
   \<and> (case and_then
             (and_then
                (mount (snd (Transition (published 0 example_props) True
                   (example_props\<lparr>show_p := None\<rparr>))))
                transitionend)
             (update (snd (Transition (published 1 (example_props\<lparr>show_p := Some False\<rparr>)) False
                (example_props\<lparr>show_p := None\<rparr>)))) of
         Inl e \<Rightarrow> None
       | Inr i \<Rightarrow> Some (status i, map_option display (nodeRef i), map fst (calls i)))
      = Some (EXITING, Some None,
          [OnEnter, OnEntering, AddEndListener, OnEntered, OnExit, OnExiting, AddEndListener])"
  by code_simp



section \<open>Properties of the service-worker registration\<close>

subsection \<open>Substrings and runs\<close>

lemma take_length_eq_iff: "take (length pat) s = pat \<longleftrightarrow> (\<exists>post. s = pat @ post)"
proof
  assume "take (length pat) s = pat"
  then have "s = pat @ drop (length pat) s" by (metis append_take_drop_id)
  then show "\<exists>post. s = pat @ post" ..
next
  assume "\<exists>post. s = pat @ post"
  then show "take (length pat) s = pat" by auto
qed

lemma indexOf_from_found:
  "indexOf_from i s pat \<noteq> - 1 \<longleftrightarrow> (\<exists>pre post. s = pre @ pat @ post)"
proof (induction s arbitrary: i)
  case Nil
  show ?case by auto
next
  case (Cons c cs)
  show ?case
  proof (cases "take (length pat) (c # cs) = pat")
    case True
    then obtain post where "c # cs = pat @ post" using take_length_eq_iff by blast
    then have "c # cs = [] @ pat @ post" by simp
    then have "\<exists>pre post. c # cs = pre @ pat @ post" by blast
    with True show ?thesis by simp
  next
    case False
    have "(\<exists>pre post. c # cs = pre @ pat @ post) \<longleftrightarrow> (\<exists>pre post. cs = pre @ pat @ post)"
    proof
      assume "\<exists>pre post. c # cs = pre @ pat @ post"
      then obtain pre post where e: "c # cs = pre @ pat @ post" by blast
      show "\<exists>pre post. cs = pre @ pat @ post"
      proof (cases pre)
        case Nil
        with e have "take (length pat) (c # cs) = pat" using take_length_eq_iff by force
        with False show ?thesis by simp
      next
        case (Cons a pre')
        with e have "cs = pre' @ pat @ post" by simp
        then show ?thesis by blast
      qed
    next
      assume "\<exists>pre post. cs = pre @ pat @ post"
      then obtain pre post where "cs = pre @ pat @ post" by blast
      then have "c # cs = (c # pre) @ pat @ post" by simp
      then show "\<exists>pre post. c # cs = pre @ pat @ post" by blast
    qed
    with False Cons.IH [of "Suc i"] show ?thesis by simp
  qed
qed

lemma indexOf_found: "indexOf s pat \<noteq> - 1 \<longleftrightarrow> (\<exists>pre post. s = pre @ pat @ post)"
  by (simp add: indexOf_def indexOf_from_found)

lemma run_Nil: "run e [] s = s"
  by (simp add: run_def)

lemma run_Cons: "run e (ev # evs) s = run e evs (step e ev s)"
  by (simp add: run_def)

lemma run_append: "run e (xs @ ys) s = run e ys (run e xs s)"
  by (simp add: run_def)

lemma register_skips:
  "\<not> (NODE_ENV e = ''production'' \<and> serviceWorker_in_navigator e)
   \<or> publicUrl_origin e \<noteq> location_origin e \<Longrightarrow> register e cfg s = s"
  by (auto simp: register_def)

lemma register_listens:
  "NODE_ENV e = ''production'' \<Longrightarrow> serviceWorker_in_navigator e \<Longrightarrow>
   publicUrl_origin e = location_origin e \<Longrightarrow>
   register e cfg s = s\<lparr>load_listeners := load_listeners s @ [cfg],
                         effects := effects s @ [AddLoadListener]\<rparr>"
  by (simp add: register_def emit_def)

text \<open>A page on which nothing is attached stays as it is, whatever happens.\<close>

lemma inert_step:
  assumes "load_listeners s = []" "promises s = []" "ready_waiting s = []"
    "\<forall>r. onupdatefound s r = None" "\<forall>w. onstatechange s w = None" "effects s = []"
  shows "load_listeners (step e ev s) = [] \<and> promises (step e ev s) = []
     \<and> ready_waiting (step e ev s) = []
     \<and> (\<forall>r. onupdatefound (step e ev s) r = None)
     \<and> (\<forall>w. onstatechange (step e ev s) w = None) \<and> effects (step e ev s) = []"
  using assms
  by (cases ev) (auto simp: step_def drain_ready_def split: option.splits)

lemma inert_run:
  assumes "load_listeners s = []" "promises s = []" "ready_waiting s = []"
    "\<forall>r. onupdatefound s r = None" "\<forall>w. onstatechange s w = None" "effects s = []"
  shows "effects (run e evs s) = [] \<and> load_listeners (run e evs s) = []"
  using assms
proof (induction evs arbitrary: s)
  case Nil
  then show ?case by (simp add: run_Nil)
next
  case (Cons ev evs)
  from inert_step [OF Cons.prems, of e ev] Cons.IH [of "step e ev s"]
  show ?case by (simp add: run_Cons)
qed

subsection \<open>From register to the answer of the fetch\<close>

lemma emit_simps:
  "effects (emit x s) = effects s @ [x]"
  "promises (emit x s) = promises s"
  "load_listeners (emit x s) = load_listeners s"
  "ready_waiting (emit x s) = ready_waiting s"
  "ready_value (emit x s) = ready_value s"
  "onupdatefound (emit x s) = onupdatefound s"
  "onstatechange (emit x s) = onstatechange s"
  "next_promise (emit x s) = next_promise s"
  by (simp_all add: emit_def)

lemma listening_register:
  "NODE_ENV e = ''production'' \<Longrightarrow> serviceWorker_in_navigator e \<Longrightarrow>
   publicUrl_origin e = location_origin e \<Longrightarrow> listening cfg (register e cfg init)"
  by (simp add: listening_def register_def emit_def init_def)

lemma listening_step:
  "listening cfg s \<Longrightarrow> ev \<noteq> Load \<Longrightarrow> listening cfg (step e ev s)"
  by (cases ev) (auto simp: listening_def step_def drain_ready_def split: option.splits)

lemma listening_run:
  "listening cfg s \<Longrightarrow> Load \<notin> set evs \<Longrightarrow> listening cfg (run e evs s)"
proof (induction evs arbitrary: s)
  case Nil
  then show ?case by (simp add: run_Nil)
next
  case (Cons ev evs)
  from Cons.prems have "ev \<noteq> Load" "Load \<notin> set evs" by auto
  from listening_step [OF Cons.prems(1) this(1), of e] this(2)
  show ?case by (simp add: run_Cons Cons.IH)
qed

lemma verifying_load:
  "listening cfg s \<Longrightarrow> isLocalhost (location_hostname e) \<Longrightarrow> verifying e cfg (step e Load s)"
  by (cases "ready_value s")
    (auto simp: listening_def verifying_def step_def on_load_def checkValidServiceWorker_def
      await_def emit_def ready_then_def drain_ready_def Let_def)

lemma verifying_step:
  assumes "verifying e cfg s" "ev \<noteq> Load" "\<forall>out. ev \<noteq> Settled 0 out"
  shows "verifying e cfg (step e ev s)"
proof (cases ev)
  case Load
  with assms show ?thesis by simp
next
  case (Settled pr out)
  with assms have "pr \<noteq> 0" by auto
  with Settled assms(1) show ?thesis
    by (cases "ready_value s")
      (auto simp: verifying_def step_def drain_ready_def emit_def split: if_splits)
next
  case (ReadyResolved reg)
  with assms(1) show ?thesis
    by (cases "ready_value s")
      (auto simp: verifying_def step_def drain_ready_def emit_def split: if_splits)
next
  case (UpdateFound reg w)
  with assms(1) show ?thesis
    by (cases "ready_value s")
      (auto simp: verifying_def step_def drain_ready_def emit_def split: if_splits)
next
  case (StateChange w st c)
  with assms(1) show ?thesis
    by (cases "ready_value s")
      (auto simp: verifying_def step_def drain_ready_def emit_def split: if_splits)
qed

lemma verifying_run:
  assumes "verifying e cfg s" "Load \<notin> set evs" "\<forall>out. Settled 0 out \<notin> set evs"
  shows "verifying e cfg (run e evs s)"
  using assms
proof (induction evs arbitrary: s)
  case Nil
  then show ?case by (simp add: run_Nil)
next
  case (Cons ev evs)
  from Cons.prems have "ev \<noteq> Load" "\<forall>out. ev \<noteq> Settled 0 out" by auto
  from verifying_step [OF Cons.prems(1) this] Cons.IH [of "step e ev s"] Cons.prems
  show ?case by (simp add: run_Cons)
qed

text \<open>Every single-load schedule on a loopback host passes through \<open>verifying\<close>.\<close>

lemma verifying_reached:
  assumes "NODE_ENV e = ''production''" "serviceWorker_in_navigator e"
    "publicUrl_origin e = location_origin e" "isLocalhost (location_hostname e)"
    and "Load \<notin> set pre" "Load \<notin> set mid" "\<forall>out. Settled 0 out \<notin> set mid"
  shows "verifying e cfg (run e (pre @ Load # mid) (register e cfg init))"
proof -
  have "listening cfg (run e pre (register e cfg init))"
    using listening_run [OF listening_register [OF assms(1-3)] assms(5)] .
  then have "verifying e cfg (step e Load (run e pre (register e cfg init)))"
    using assms(4) by (rule verifying_load)
  then have "verifying e cfg (run e mid (step e Load (run e pre (register e cfg init))))"
    using assms(6,7) by (rule verifying_run)
  then show ?thesis by (simp add: run_append run_Cons)
qed

lemma verifying_fails:
  assumes "verifying e cfg s"
    and "st = 404 \<or> (\<exists>c. ct = Some c \<and> indexOf c ''javascript'' = - 1)"
  shows "step e (Settled 0 (Response st ct)) s =
     (case ready_value s of
        None \<Rightarrow> s\<lparr>promises := [], ready_waiting := [LogCacheFirst, UnregisterAndReload]\<rparr>
      | Some reg \<Rightarrow>
          s\<lparr>promises := [(Suc 0, ReloadThen)], next_promise := Suc (Suc 0),
            effects := effects s @ [Unregister reg]\<rparr>)"
  using assms
  by (cases "ready_value s")
    (auto simp: verifying_def step_def drain_ready_def ready_then_def emit_def await_def)

lemma verifying_passes:
  assumes "verifying e cfg s"
    and "st \<noteq> 404" "ct = None \<or> (\<exists>c. ct = Some c \<and> indexOf c ''javascript'' \<noteq> - 1)"
  shows "step e (Settled 0 (Response st ct)) s =
     s\<lparr>promises := [(Suc 0, RegisterThen cfg)], next_promise := Suc (Suc 0),
       effects := effects s @ [ServiceWorkerRegister (PUBLIC_URL e @ ''/service-worker.js'')]\<rparr>"
  using assms
  by (cases "ready_value s")
    (auto simp: verifying_def step_def drain_ready_def registerValidSW_def emit_def await_def)

lemma verifying_rejected:
  assumes "verifying e cfg s"
  shows "step e (Settled 0 (Rejection r)) s =
     s\<lparr>promises := [], effects := effects s @ [ConsoleLog msg_offline]\<rparr>"
  using assms
  by (cases "ready_value s")
    (auto simp: verifying_def step_def drain_ready_def emit_def)

text \<open>
  While the only pending promises are those of \<open>registration.unregister()\<close> and the
  \<open>load\<close> event does not fire again, nothing the page does is a call of
  \<open>navigator.serviceWorker.register\<close> or of \<open>fetch\<close>.
\<close>

lemma fold_run_ready_no_call:
  assumes "\<forall>x \<in> set (promises s). snd x = ReloadThen"
  shows "(\<forall>x \<in> set (promises (fold (run_ready reg) ks s)). snd x = ReloadThen)
     \<and> (\<exists>new. effects (fold (run_ready reg) ks s) = effects s @ new
           \<and> (\<forall>x \<in> set new. \<forall>u. x \<noteq> ServiceWorkerRegister u \<and> x \<noteq> Fetch u))"
  using assms
proof (induction ks arbitrary: s)
  case Nil
  then show ?case by simp
next
  case (Cons k ks)
  have p: "\<forall>x \<in> set (promises (run_ready reg k s)). snd x = ReloadThen"
    using Cons.prems by (cases k) (auto simp: emit_def await_def)
  obtain a where a: "effects (run_ready reg k s) = effects s @ [a]"
    "\<forall>u. a \<noteq> ServiceWorkerRegister u \<and> a \<noteq> Fetch u"
    by (cases k) (auto simp: emit_def await_def)
  from Cons.IH [OF p] obtain new where
    n: "\<forall>x \<in> set (promises (fold (run_ready reg) ks (run_ready reg k s))). snd x = ReloadThen"
      "effects (fold (run_ready reg) ks (run_ready reg k s)) = effects (run_ready reg k s) @ new"
      "\<forall>x \<in> set new. \<forall>u. x \<noteq> ServiceWorkerRegister u \<and> x \<noteq> Fetch u"
    by blast
  have "effects (fold (run_ready reg) (k # ks) s) = effects s @ (a # new)"
    using n(2) a(1) by simp
  moreover have "\<forall>x \<in> set (a # new). \<forall>u. x \<noteq> ServiceWorkerRegister u \<and> x \<noteq> Fetch u"
    using a(2) n(3) by simp
  ultimately show ?case using n(1) by (intro conjI exI [of _ "a # new"]) simp_all
qed

lemma handle_no_call:
  assumes "ev \<noteq> Load" "\<forall>x \<in> set (promises s). snd x = ReloadThen"
  shows "(\<forall>x \<in> set (promises (handle e ev s)). snd x = ReloadThen)
     \<and> (\<exists>new. effects (handle e ev s) = effects s @ new
           \<and> (\<forall>x \<in> set new. \<forall>u. x \<noteq> ServiceWorkerRegister u \<and> x \<noteq> Fetch u))"
proof (cases ev)
  case Load
  with assms(1) show ?thesis by simp
next
  case (Settled pr out)
  show ?thesis
  proof (cases "map_of (promises s) pr")
    case None
    with Settled assms show ?thesis by simp
  next
    case (Some k)
    then have "(pr, k) \<in> set (promises s)" by (rule map_of_SomeD)
    with assms(2) have k: "k = ReloadThen" by auto
    show ?thesis
      using Settled Some k assms(2)
      by (cases out) (auto simp: emit_def)
  qed
next
  case (ReadyResolved reg)
  with assms show ?thesis by (auto split: option.splits)
next
  case (UpdateFound reg installing)
  with assms show ?thesis by (auto split: option.splits)
next
  case (StateChange w st c)
  with assms show ?thesis
    by (auto simp: statechange_def emit_def Let_def split: option.splits)
qed

lemma step_no_call:
  assumes "ev \<noteq> Load" "\<forall>x \<in> set (promises s). snd x = ReloadThen"
  shows "(\<forall>x \<in> set (promises (step e ev s)). snd x = ReloadThen)
     \<and> (\<exists>new. effects (step e ev s) = effects s @ new
           \<and> (\<forall>x \<in> set new. \<forall>u. x \<noteq> ServiceWorkerRegister u \<and> x \<noteq> Fetch u))"
proof -
  from handle_no_call [OF assms, of e] obtain new1 where
    h: "\<forall>x \<in> set (promises (handle e ev s)). snd x = ReloadThen"
      "effects (handle e ev s) = effects s @ new1"
      "\<forall>x \<in> set new1. \<forall>u. x \<noteq> ServiceWorkerRegister u \<and> x \<noteq> Fetch u"
    by blast
  show ?thesis
  proof (cases "ready_value (handle e ev s)")
    case None
    with h show ?thesis by (simp add: step_def drain_ready_def)
  next
    case (Some reg)
    let ?t = "handle e ev s\<lparr>ready_waiting := []\<rparr>"
    have "\<forall>x \<in> set (promises ?t). snd x = ReloadThen" using h(1) by simp
    from fold_run_ready_no_call [OF this, of reg "ready_waiting (handle e ev s)"]
    obtain new2 where
      f: "\<forall>x \<in> set (promises (fold (run_ready reg) (ready_waiting (handle e ev s)) ?t)).
            snd x = ReloadThen"
        "effects (fold (run_ready reg) (ready_waiting (handle e ev s)) ?t) = effects ?t @ new2"
        "\<forall>x \<in> set new2. \<forall>u. x \<noteq> ServiceWorkerRegister u \<and> x \<noteq> Fetch u"
      by blast
    have "effects (step e ev s) = effects s @ (new1 @ new2)"
      using Some f(2) h(2) by (simp add: step_def drain_ready_def)
    moreover have "\<forall>x \<in> set (new1 @ new2). \<forall>u. x \<noteq> ServiceWorkerRegister u \<and> x \<noteq> Fetch u"
      using h(3) f(3) by auto
    moreover have "\<forall>x \<in> set (promises (step e ev s)). snd x = ReloadThen"
      using Some f(1) by (simp add: step_def drain_ready_def)
    ultimately show ?thesis by blast
  qed
qed

lemma run_no_call:
  assumes "Load \<notin> set evs" "\<forall>x \<in> set (promises s). snd x = ReloadThen"
  shows "\<exists>new. effects (run e evs s) = effects s @ new
           \<and> (\<forall>x \<in> set new. \<forall>u. x \<noteq> ServiceWorkerRegister u \<and> x \<noteq> Fetch u)"
  using assms
proof (induction evs arbitrary: s)
  case Nil
  then show ?case by (simp add: run_Nil)
next
  case (Cons ev evs)
  from Cons.prems(1) have l: "ev \<noteq> Load" "Load \<notin> set evs" by auto
  from step_no_call [OF l(1) Cons.prems(2), of e] obtain new1 where
    s: "\<forall>x \<in> set (promises (step e ev s)). snd x = ReloadThen"
      "effects (step e ev s) = effects s @ new1"
      "\<forall>x \<in> set new1. \<forall>u. x \<noteq> ServiceWorkerRegister u \<and> x \<noteq> Fetch u"
    by blast
  from Cons.IH [OF l(2) s(1)] obtain new2 where
    r: "effects (run e evs (step e ev s)) = effects (step e ev s) @ new2"
      "\<forall>x \<in> set new2. \<forall>u. x \<noteq> ServiceWorkerRegister u \<and> x \<noteq> Fetch u"
    by blast
  have "effects (run e (ev # evs) s) = effects s @ (new1 @ new2)"
    using r(1) s(2) by (simp add: run_Cons)
  moreover have "\<forall>x \<in> set (new1 @ new2). \<forall>u. x \<noteq> ServiceWorkerRegister u \<and> x \<noteq> Fetch u"
    using s(3) r(2) by auto
  ultimately show ?case by blast
qed

text \<open>
  Once nothing is pending and no handler is attached, the only thing left to happen
  is the cache-first message, logged when \<open>ready\<close> resolves.
\<close>

lemma fold_run_ready_quiet:
  assumes "set ks \<subseteq> {LogCacheFirst}"
  shows "promises (fold (run_ready reg) ks s) = promises s
     \<and> onupdatefound (fold (run_ready reg) ks s) = onupdatefound s
     \<and> onstatechange (fold (run_ready reg) ks s) = onstatechange s
     \<and> ready_waiting (fold (run_ready reg) ks s) = ready_waiting s
     \<and> (\<exists>new. effects (fold (run_ready reg) ks s) = effects s @ new
           \<and> set new \<subseteq> {ConsoleLog msg_cache_first})"
  using assms
proof (induction ks arbitrary: s)
  case Nil
  then show ?case by simp
next
  case (Cons k ks)
  then have k: "k = LogCacheFirst" and ks: "set ks \<subseteq> {LogCacheFirst}" by auto
  from Cons.IH [OF ks, of "emit (ConsoleLog msg_cache_first) s"] obtain new where
    n: "promises (fold (run_ready reg) ks (emit (ConsoleLog msg_cache_first) s)) = promises s"
      "onupdatefound (fold (run_ready reg) ks (emit (ConsoleLog msg_cache_first) s)) = onupdatefound s"
      "onstatechange (fold (run_ready reg) ks (emit (ConsoleLog msg_cache_first) s)) = onstatechange s"
      "ready_waiting (fold (run_ready reg) ks (emit (ConsoleLog msg_cache_first) s)) = ready_waiting s"
      "effects (fold (run_ready reg) ks (emit (ConsoleLog msg_cache_first) s))
         = effects s @ ConsoleLog msg_cache_first # new"
      "set new \<subseteq> {ConsoleLog msg_cache_first}"
    by (auto simp: emit_simps)
  have "set (ConsoleLog msg_cache_first # new) \<subseteq> {ConsoleLog msg_cache_first}"
    using n(6) by simp
  with n(1-5) show ?case unfolding k by (simp only: fold_simps run_ready.simps comp_def) blast
qed

lemma step_quiet:
  assumes "ev \<noteq> Load" "promises s = []" "onupdatefound s = (\<lambda>r. None)"
    "onstatechange s = (\<lambda>w. None)" "set (ready_waiting s) \<subseteq> {LogCacheFirst}"
  shows "promises (step e ev s) = [] \<and> onupdatefound (step e ev s) = (\<lambda>r. None)
     \<and> onstatechange (step e ev s) = (\<lambda>w. None)
     \<and> set (ready_waiting (step e ev s)) \<subseteq> {LogCacheFirst}
     \<and> (\<exists>new. effects (step e ev s) = effects s @ new
           \<and> set new \<subseteq> {ConsoleLog msg_cache_first})"
proof -
  have h: "promises (handle e ev s) = []" "onupdatefound (handle e ev s) = (\<lambda>r. None)"
    "onstatechange (handle e ev s) = (\<lambda>w. None)"
    "ready_waiting (handle e ev s) = ready_waiting s"
    "effects (handle e ev s) = effects s"
    using assms by (cases ev; auto split: option.splits)+
  show ?thesis
  proof (cases "ready_value (handle e ev s)")
    case None
    with h assms(5) show ?thesis by (simp add: step_def drain_ready_def)
  next
    case (Some reg)
    from fold_run_ready_quiet [of "ready_waiting s" reg "handle e ev s\<lparr>ready_waiting := []\<rparr>"]
      assms(5) h Some
    show ?thesis by (simp add: step_def drain_ready_def)
  qed
qed

lemma run_quiet:
  assumes "Load \<notin> set evs" "promises s = []" "onupdatefound s = (\<lambda>r. None)"
    "onstatechange s = (\<lambda>w. None)" "set (ready_waiting s) \<subseteq> {LogCacheFirst}"
  shows "\<exists>new. effects (run e evs s) = effects s @ new
           \<and> set new \<subseteq> {ConsoleLog msg_cache_first}"
  using assms
proof (induction evs arbitrary: s)
  case Nil
  then show ?case by (simp add: run_Nil)
next
  case (Cons ev evs)
  from Cons.prems(1) have l: "ev \<noteq> Load" "Load \<notin> set evs" by auto
  from step_quiet [OF l(1) Cons.prems(2-5), of e] obtain new1 where
    s: "promises (step e ev s) = []" "onupdatefound (step e ev s) = (\<lambda>r. None)"
      "onstatechange (step e ev s) = (\<lambda>w. None)"
      "set (ready_waiting (step e ev s)) \<subseteq> {LogCacheFirst}"
      "effects (step e ev s) = effects s @ new1" "set new1 \<subseteq> {ConsoleLog msg_cache_first}"
    by blast
  from Cons.IH [OF l(2) s(1-4)] obtain new2 where
    r: "effects (run e evs (step e ev s)) = effects (step e ev s) @ new2"
      "set new2 \<subseteq> {ConsoleLog msg_cache_first}"
    by blast
  have "effects (run e (ev # evs) s) = effects s @ (new1 @ new2)"
    using r(1) s(5) by (simp add: run_Cons)
  moreover have "set (new1 @ new2) \<subseteq> {ConsoleLog msg_cache_first}"
    using s(6) r(2) by simp
  ultimately show ?case by blast
qed

lemma fold_run_ready_waiting:
  "ready_waiting (fold (run_ready reg) ks s) = ready_waiting s
   \<and> ready_value (fold (run_ready reg) ks s) = ready_value s"
proof (induction ks arbitrary: s)
  case Nil
  show ?case by simp
next
  case (Cons k ks)
  have "ready_waiting (run_ready reg k s) = ready_waiting s
      \<and> ready_value (run_ready reg k s) = ready_value s"
    by (cases k) (simp_all add: emit_def await_def)
  with Cons [of "run_ready reg k s"] show ?case by simp
qed

lemma step_drained: "ready_value (step e ev s) = None \<or> ready_waiting (step e ev s) = []"
  by (cases "ready_value (handle e ev s)")
    (simp_all add: step_def drain_ready_def fold_run_ready_waiting)

lemma drain_ready_drained:
  "ready_value s = None \<or> ready_waiting s = [] \<Longrightarrow> drain_ready s = s"
  by (cases "ready_value s") (auto simp: drain_ready_def)

lemma step_statechange:
  assumes "onstatechange s w = Some (reg, cfg)" "ready_value s = None \<or> ready_waiting s = []"
  shows "step e (StateChange w st c) s = statechange cfg reg st c s"
proof -
  have "ready_value (statechange cfg reg st c s) = None
      \<or> ready_waiting (statechange cfg reg st c s) = []"
    using assms(2) by (auto simp: statechange_def emit_def Let_def)
  then show ?thesis
    using assms(1) by (simp add: step_def drain_ready_drained)
qed

lemma example_env_qualifies:
  "NODE_ENV example_env = ''production''" "serviceWorker_in_navigator example_env"
  "publicUrl_origin example_env = location_origin example_env"
  "isLocalhost (location_hostname example_env)"
  by (simp_all add: example_env_def) code_simp

subsection \<open>The claims about the service-worker registration\<close>

text \<open>
  Claim C1. A registration started with \<open>registerValidSW\<close> that resolves with \<open>reg\<close>, followed
  by \<open>updatefound\<close> with an installing worker \<open>w\<close>, attaches to \<open>w\<close> a handler closed over
  \<open>reg\<close> and \<open>cfg\<close>. On any page where that handler is attached and no callback on \<open>ready\<close>
  is due (as is the case after every event), when \<open>w\<close> reports the state \<open>installed\<close>:
  with a controller the page logs the new-content message and calls
  \<open>config.onUpdate(reg)\<close> if \<open>config\<close> supplies it, and calls no \<open>onSuccess\<close>; without a
  controller it logs the cached message and calls \<open>config.onSuccess(reg)\<close> if supplied,
  and calls no \<open>onUpdate\<close>. Any other state of \<open>w\<close> does nothing.
\<close>

theorem registration_outcome_dispatch:
  assumes "map_of (promises s) (next_promise s) = None"
    and "ready_value s = None \<or> ready_waiting s = []"
  shows "(let t = run e [Settled (next_promise s) (Registered reg), UpdateFound reg (Some w)]
                   (registerValidSW swUrl cfg s)
          in effects t = effects s @ [ServiceWorkerRegister swUrl]
             \<and> onstatechange t w = Some (reg, cfg)
             \<and> (ready_value t = None \<or> ready_waiting t = []))
     \<and> (\<forall>ev u. ready_value (step e ev u) = None \<or> ready_waiting (step e ev u) = [])
     \<and> (\<forall>t. onstatechange t w = Some (reg, cfg) \<and> (ready_value t = None \<or> ready_waiting t = [])
          \<longrightarrow>
            effects (step e (StateChange w Installed True) t)
              = effects t @ ConsoleLog msg_new_content
                  # (if (case cfg of None \<Rightarrow> False | Some k \<Rightarrow> onUpdate k)
                     then [CallOnUpdate reg] else [])
          \<and> effects (step e (StateChange w Installed False) t)
              = effects t @ ConsoleLog msg_cached
                  # (if (case cfg of None \<Rightarrow> False | Some k \<Rightarrow> onSuccess k)
                     then [CallOnSuccess reg] else [])
          \<and> (\<forall>r. CallOnSuccess r \<notin> set (drop (length (effects t))
                         (effects (step e (StateChange w Installed True) t)))
                \<and> CallOnUpdate r \<notin> set (drop (length (effects t))
                         (effects (step e (StateChange w Installed False) t))))
          \<and> (\<forall>st c. st \<noteq> Installed \<longrightarrow> effects (step e (StateChange w st c) t) = effects t))"
    (is "?chain \<and> ?drained \<and> (\<forall>t. ?A t \<longrightarrow> ?C t)")
proof (intro conjI)
  let ?p = "next_promise s"
  define s0 where "s0 = registerValidSW swUrl cfg s"
  have s0: "effects s0 = effects s @ [ServiceWorkerRegister swUrl]"
    "promises s0 = promises s @ [(?p, RegisterThen cfg)]"
    "ready_value s0 = ready_value s" "ready_waiting s0 = ready_waiting s"
    by (simp_all add: s0_def registerValidSW_def await_def emit_def)
  have look: "map_of (promises s0) ?p = Some (RegisterThen cfg)"
    using assms(1) by (simp add: s0(2) map_add_def)
  define s1 where "s1 = handle e (Settled ?p (Registered reg)) s0"
  have s1: "effects s1 = effects s0" "onupdatefound s1 reg = Some cfg"
    "ready_value s1 = ready_value s" "ready_waiting s1 = ready_waiting s"
    using look by (simp_all add: s1_def s0)
  have "drain_ready s1 = s1"
    using s1(3,4) assms(2) by (intro drain_ready_drained) simp
  then have d1: "step e (Settled ?p (Registered reg)) s0 = s1"
    unfolding step_def s1_def .
  define s2 where "s2 = handle e (UpdateFound reg (Some w)) s1"
  have s2: "effects s2 = effects s0" "onstatechange s2 w = Some (reg, cfg)"
    "ready_value s2 = ready_value s" "ready_waiting s2 = ready_waiting s"
    using s1 by (simp_all add: s2_def)
  have "drain_ready s2 = s2"
    using s2(3,4) assms(2) by (intro drain_ready_drained) simp
  then have d2: "step e (UpdateFound reg (Some w)) s1 = s2"
    unfolding step_def s2_def .
  have "run e [Settled ?p (Registered reg), UpdateFound reg (Some w)]
          (registerValidSW swUrl cfg s) = s2"
    by (simp add: run_Cons run_Nil s0_def [symmetric] d1 d2)
  then show ?chain
    using s2 s0(1) assms(2) by (simp add: Let_def)
next
  show ?drained by (simp add: step_drained)
next
  show "\<forall>t. ?A t \<longrightarrow> ?C t"
  proof (intro allI impI)
    fix t
    assume "?A t"
    then have a: "onstatechange t w = Some (reg, cfg)"
      "ready_value t = None \<or> ready_waiting t = []" by simp_all
    show "?C t"
      unfolding step_statechange [OF a]
      by (simp add: statechange_def emit_def Let_def)
  qed
qed

theorem registration_outcome_dispatch_witness:
  "map_of (promises init) (next_promise init) = None
   \<and> (ready_value init = None \<or> ready_waiting init = [])
   \<and> effects (step example_env (StateChange 9 Installed True)
        (run example_env [Settled (next_promise init) (Registered 5), UpdateFound 5 (Some 9)]
           (registerValidSW ''/service-worker.js''
              (Some \<lparr>onUpdate = True, onSuccess = True\<rparr>) init)))
      = [ServiceWorkerRegister ''/service-worker.js'', ConsoleLog msg_new_content, CallOnUpdate 5]
   \<and> effects (step example_env (StateChange 9 Installed False)
        (run example_env [Settled (next_promise init) (Registered 5), UpdateFound 5 (Some 9)]
           (registerValidSW ''/service-worker.js''
              (Some \<lparr>onUpdate = True, onSuccess = True\<rparr>) init)))
      = [ServiceWorkerRegister ''/service-worker.js'', ConsoleLog msg_cached, CallOnSuccess 5]"
proof -
  let ?cfg = "Some \<lparr>onUpdate = True, onSuccess = True\<rparr>"
  let ?t = "run example_env [Settled (next_promise init) (Registered 5), UpdateFound 5 (Some 9)]
           (registerValidSW ''/service-worker.js'' ?cfg init)"
  have a: "map_of (promises init) (next_promise init) = None"
    and b: "ready_value init = None \<or> ready_waiting init = []"
    by (simp_all add: init_def)
  note th = registration_outcome_dispatch [OF a b, of example_env 5 9 "''/service-worker.js''" ?cfg]
  from th have t: "effects ?t = effects init @ [ServiceWorkerRegister ''/service-worker.js'']"
    "onstatechange ?t 9 = Some (5, ?cfg)" "ready_value ?t = None \<or> ready_waiting ?t = []"
    unfolding Let_def by blast+
  from th t(2,3)
  have 1: "effects (step example_env (StateChange 9 Installed True) ?t)
      = effects ?t @ ConsoleLog msg_new_content
          # (if (case ?cfg of None \<Rightarrow> False | Some k \<Rightarrow> onUpdate k) then [CallOnUpdate 5] else [])"
    and 2: "effects (step example_env (StateChange 9 Installed False) ?t)
      = effects ?t @ ConsoleLog msg_cached
          # (if (case ?cfg of None \<Rightarrow> False | Some k \<Rightarrow> onSuccess k) then [CallOnSuccess 5] else [])"
    by blast+
  have e: "effects init = []" by (simp add: init_def)
  show ?thesis using a b 1 2 unfolding t(1) e by simp
qed

text \<open>
  Claim C5. Unless the build is a production build and \<open>navigator\<close> has \<open>serviceWorker\<close>,
  and also when the origin of the public URL differs from the page's origin, \<open>register\<close>
  leaves the page as it found it; after such a call on a fresh page no sequence of
  events makes the page do anything: no \<open>load\<close> listener exists, and neither \<open>fetch\<close> nor
  \<open>navigator.serviceWorker.register\<close> is ever called. Otherwise \<open>register\<close> attaches its
  \<open>load\<close> listener and does nothing else.
\<close>

theorem register_noop_unless_qualified:
  "(\<not> (NODE_ENV e = ''production'' \<and> serviceWorker_in_navigator e)
      \<or> publicUrl_origin e \<noteq> location_origin e
    \<longrightarrow> register e cfg s = s
        \<and> (\<forall>evs. effects (run e evs (register e cfg init)) = []
                  \<and> load_listeners (run e evs (register e cfg init)) = []))
   \<and> (NODE_ENV e = ''production'' \<and> serviceWorker_in_navigator e
        \<and> publicUrl_origin e = location_origin e
    \<longrightarrow> load_listeners (register e cfg init) = [cfg]
        \<and> effects (register e cfg init) = [AddLoadListener])"
proof (intro conjI impI allI)
  assume a: "\<not> (NODE_ENV e = ''production'' \<and> serviceWorker_in_navigator e)
      \<or> publicUrl_origin e \<noteq> location_origin e"
  show "register e cfg s = s" using a by (rule register_skips)
  fix evs
  have i: "register e cfg init = init" using a by (rule register_skips)
  have "effects (run e evs init) = [] \<and> load_listeners (run e evs init) = []"
    by (rule inert_run) (simp_all add: init_def)
  then show "effects (run e evs (register e cfg init)) = []"
    and "load_listeners (run e evs (register e cfg init)) = []"
    by (simp_all add: i)
next
  assume "NODE_ENV e = ''production'' \<and> serviceWorker_in_navigator e
        \<and> publicUrl_origin e = location_origin e"
  then show "load_listeners (register e cfg init) = [cfg]"
    and "effects (register e cfg init) = [AddLoadListener]"
    by (simp_all add: register_listens init_def)
qed

theorem register_noop_unless_qualified_witness:
  "\<not> (NODE_ENV (example_env\<lparr>NODE_ENV := ''development''\<rparr>) = ''production''
       \<and> serviceWorker_in_navigator (example_env\<lparr>NODE_ENV := ''development''\<rparr>))
   \<and> effects (run (example_env\<lparr>NODE_ENV := ''development''\<rparr>)
        [Load, Settled 0 (Response 200 (Some ''application/javascript''))]
        (register (example_env\<lparr>NODE_ENV := ''development''\<rparr>) None init)) = []
   \<and> publicUrl_origin (example_env\<lparr>publicUrl_origin := ''https://cdn.example.com''\<rparr>)
       \<noteq> location_origin (example_env\<lparr>publicUrl_origin := ''https://cdn.example.com''\<rparr>)
   \<and> effects (run (example_env\<lparr>publicUrl_origin := ''https://cdn.example.com''\<rparr>) [Load]
        (register (example_env\<lparr>publicUrl_origin := ''https://cdn.example.com''\<rparr>) None init)) = []
   \<and> NODE_ENV example_env = ''production'' \<and> serviceWorker_in_navigator example_env
   \<and> publicUrl_origin example_env = location_origin example_env
   \<and> effects (register example_env None init) = [AddLoadListener]"
proof -
  let ?d = "example_env\<lparr>NODE_ENV := ''development''\<rparr>"
  let ?c = "example_env\<lparr>publicUrl_origin := ''https://cdn.example.com''\<rparr>"
  have d: "\<not> (NODE_ENV ?d = ''production'' \<and> serviceWorker_in_navigator ?d)" by simp
  have c: "publicUrl_origin ?c \<noteq> location_origin ?c" by (simp add: example_env_def)
  have p: "NODE_ENV example_env = ''production''" "serviceWorker_in_navigator example_env"
    "publicUrl_origin example_env = location_origin example_env"
    by (simp_all add: example_env_def)
  from register_noop_unless_qualified [of ?d None init] d
  have 1: "effects (run ?d [Load, Settled 0 (Response 200 (Some ''application/javascript''))]
        (register ?d None init)) = []" by blast
  from register_noop_unless_qualified [of ?c None init] c
  have 2: "effects (run ?c [Load] (register ?c None init)) = []" by blast
  from register_noop_unless_qualified [of example_env None init] p
  have 3: "effects (register example_env None init) = [AddLoadListener]" by blast
  show ?thesis using d 1 c 2 p 3 by (intro conjI)
qed

text \<open>
  Claim C6. On a loopback host, with the \<open>load\<close> event firing once and anything else
  happening before it (\<open>pre\<close>) and between it and the answer to the \<open>fetch\<close> (\<open>mid\<close>): when
  the fetch of the worker script answers with status 404, whatever happens afterwards
  (\<open>post\<close>) the page calls neither \<open>navigator.serviceWorker.register\<close> nor \<open>fetch\<close> again;
  and once \<open>ready\<close> has resolved with a registration (before the answer or after it) that
  registration is unregistered, and when the unregistration has resolved the page
  reloads.
\<close>

theorem not_found_unregisters_and_reloads:
  assumes "NODE_ENV e = ''production''" "serviceWorker_in_navigator e"
    "publicUrl_origin e = location_origin e" "isLocalhost (location_hostname e)"
    and "Load \<notin> set pre" "Load \<notin> set mid" "\<forall>out. Settled 0 out \<notin> set mid"
  shows "(\<forall>post. Load \<notin> set post \<longrightarrow>
            (\<exists>new. effects (run e (pre @ Load # mid @ Settled 0 (Response 404 ct) # post)
                              (register e cfg init))
                     = [AddLoadListener, Fetch (PUBLIC_URL e @ ''/service-worker.js'')] @ new
                  \<and> (\<forall>x \<in> set new. \<forall>u. x \<noteq> ServiceWorkerRegister u \<and> x \<noteq> Fetch u)))
     \<and> (ready_value (run e (pre @ Load # mid) (register e cfg init)) = None \<longrightarrow>
          (\<forall>reg b. effects (run e (pre @ Load # mid @
                        [Settled 0 (Response 404 ct), ReadyResolved reg, Settled 1 (Unregistered b)])
                      (register e cfg init))
            = [AddLoadListener, Fetch (PUBLIC_URL e @ ''/service-worker.js''),
               ConsoleLog msg_cache_first, Unregister reg, Reload]))
     \<and> (\<forall>reg. ready_value (run e (pre @ Load # mid) (register e cfg init)) = Some reg \<longrightarrow>
          (\<forall>b. effects (run e (pre @ Load # mid @
                        [Settled 0 (Response 404 ct), Settled 1 (Unregistered b)])
                      (register e cfg init))
            = [AddLoadListener, Fetch (PUBLIC_URL e @ ''/service-worker.js''),
               ConsoleLog msg_cache_first, Unregister reg, Reload]))"
proof -
  let ?url = "PUBLIC_URL e @ ''/service-worker.js''"
  define s1 where "s1 = run e (pre @ Load # mid) (register e cfg init)"
  define s2 where "s2 = step e (Settled 0 (Response 404 ct)) s1"
  have v: "verifying e cfg s1"
    unfolding s1_def using assms by (rule verifying_reached)
  have s2: "s2 = (case ready_value s1 of
        None \<Rightarrow> s1\<lparr>promises := [], ready_waiting := [LogCacheFirst, UnregisterAndReload]\<rparr>
      | Some reg \<Rightarrow>
          s1\<lparr>promises := [(Suc 0, ReloadThen)], next_promise := Suc (Suc 0),
            effects := effects s1 @ [Unregister reg]\<rparr>)"
    unfolding s2_def using v by (rule verifying_fails) simp
  have r: "run e (pre @ Load # mid @ Settled 0 (Response 404 ct) # post) (register e cfg init)
      = run e post s2" for post
    by (simp add: s1_def s2_def run_append run_Cons)
  have a: "\<exists>new. effects (run e post s2) = [AddLoadListener, Fetch ?url] @ new
                  \<and> (\<forall>x \<in> set new. \<forall>u. x \<noteq> ServiceWorkerRegister u \<and> x \<noteq> Fetch u)"
    if "Load \<notin> set post" for post
  proof -
    have p: "\<forall>x \<in> set (promises s2). snd x = ReloadThen"
      unfolding s2 by (cases "ready_value s1") simp_all
    obtain new0 where n0: "effects s2 = [AddLoadListener, Fetch ?url] @ new0"
      "\<forall>x \<in> set new0. \<forall>u. x \<noteq> ServiceWorkerRegister u \<and> x \<noteq> Fetch u"
      using v unfolding s2 by (cases "ready_value s1") (auto simp: verifying_def)
    from run_no_call [OF that p, of e] obtain new where
      n: "effects (run e post s2) = effects s2 @ new"
      "\<forall>x \<in> set new. \<forall>u. x \<noteq> ServiceWorkerRegister u \<and> x \<noteq> Fetch u"
      by blast
    have "effects (run e post s2) = [AddLoadListener, Fetch ?url] @ (new0 @ new)"
      using n(1) n0(1) by simp
    moreover have "\<forall>x \<in> set (new0 @ new). \<forall>u. x \<noteq> ServiceWorkerRegister u \<and> x \<noteq> Fetch u"
      using n(2) n0(2) by auto
    ultimately show ?thesis by blast
  qed
  have b: "effects (run e [ReadyResolved reg, Settled 1 (Unregistered b)] s2)
        = [AddLoadListener, Fetch ?url, ConsoleLog msg_cache_first, Unregister reg, Reload]"
    if "ready_value s1 = None" for reg b
    using v that unfolding s2
    by (simp add: verifying_def run_Cons run_Nil step_def drain_ready_def emit_def await_def)
  have c: "effects (run e [Settled 1 (Unregistered b)] s2)
        = [AddLoadListener, Fetch ?url, ConsoleLog msg_cache_first, Unregister reg, Reload]"
    if "ready_value s1 = Some reg" for reg b
    using v that unfolding s2
    by (simp add: verifying_def run_Cons run_Nil step_def drain_ready_def emit_def await_def)
  show ?thesis
    using a b c r [of "[]"] r
    unfolding s1_def [symmetric]
    by (simp add: run_Cons run_Nil)
qed

theorem not_found_unregisters_and_reloads_witness:
  "NODE_ENV example_env = ''production'' \<and> serviceWorker_in_navigator example_env
   \<and> publicUrl_origin example_env = location_origin example_env
   \<and> isLocalhost (location_hostname example_env)
   \<and> Load \<notin> set [ReadyResolved 7] \<and> Load \<notin> set [StateChange 3 Installed True]
   \<and> Settled 0 (Rejection ''x'') \<notin> set [StateChange 3 Installed True]
   \<and> ready_value (run example_env ([ReadyResolved 7] @ Load # [StateChange 3 Installed True])
        (register example_env None init)) = Some 7
   \<and> effects (run example_env ([ReadyResolved 7] @ Load # [StateChange 3 Installed True] @
          [Settled 0 (Response 404 None), Settled 1 (Unregistered True)])
        (register example_env None init))
      = [AddLoadListener, Fetch (PUBLIC_URL example_env @ ''/service-worker.js''),
         ConsoleLog msg_cache_first, Unregister 7, Reload]"
proof -
  have l: "Load \<notin> set [ReadyResolved 7]" "Load \<notin> set [StateChange 3 Installed True]"
    "\<forall>out. Settled 0 out \<notin> set [StateChange 3 Installed True]"
    by simp_all
  have r: "ready_value (run example_env ([ReadyResolved 7] @ Load # [StateChange 3 Installed True])
        (register example_env None init)) = Some 7"
    by code_simp
  from not_found_unregisters_and_reloads [OF example_env_qualifies l, of None None] r
  have "effects (run example_env ([ReadyResolved 7] @ Load # [StateChange 3 Installed True] @
          [Settled 0 (Response 404 None), Settled 1 (Unregistered True)])
        (register example_env None init))
      = [AddLoadListener, Fetch (PUBLIC_URL example_env @ ''/service-worker.js''),
         ConsoleLog msg_cache_first, Unregister 7, Reload]"
    by blast
  with example_env_qualifies l r show ?thesis by simp
qed

text \<open>
  Claim C7, as amended. On a loopback host, under the same schedules, the answer to the
  \<open>fetch\<close> makes the page call \<open>navigator.serviceWorker.register\<close> exactly when its status
  is not 404 and its \<open>content-type\<close> header is either absent or contains \<open>javascript\<close>;
  the call is then the next thing the page does, and for every other answer the page
  never makes it, whatever happens afterwards.
\<close>

theorem registers_iff_found_and_not_other_content:
  assumes "NODE_ENV e = ''production''" "serviceWorker_in_navigator e"
    "publicUrl_origin e = location_origin e" "isLocalhost (location_hostname e)"
    and "Load \<notin> set pre" "Load \<notin> set mid" "\<forall>out. Settled 0 out \<notin> set mid"
  shows "((\<exists>u. ServiceWorkerRegister u \<in> set (effects
              (run e (pre @ Load # mid @ [Settled 0 (Response st ct)]) (register e cfg init))))
          \<longleftrightarrow> st \<noteq> 404 \<and> (ct = None \<or> (\<exists>c a b. ct = Some c \<and> c = a @ ''javascript'' @ b)))
     \<and> (st \<noteq> 404 \<and> (ct = None \<or> (\<exists>c a b. ct = Some c \<and> c = a @ ''javascript'' @ b)) \<longrightarrow>
          effects (run e (pre @ Load # mid @ [Settled 0 (Response st ct)]) (register e cfg init))
            = effects (run e (pre @ Load # mid) (register e cfg init))
              @ [ServiceWorkerRegister (PUBLIC_URL e @ ''/service-worker.js'')])
     \<and> (\<not> (st \<noteq> 404 \<and> (ct = None \<or> (\<exists>c a b. ct = Some c \<and> c = a @ ''javascript'' @ b))) \<longrightarrow>
          (\<forall>post. Load \<notin> set post \<longrightarrow>
             (\<forall>u. ServiceWorkerRegister u \<notin> set (effects
                (run e (pre @ Load # mid @ Settled 0 (Response st ct) # post)
                   (register e cfg init))))))"
proof -
  let ?url = "PUBLIC_URL e @ ''/service-worker.js''"
  let ?ok = "st \<noteq> 404 \<and> (ct = None \<or> (\<exists>c a b. ct = Some c \<and> c = a @ ''javascript'' @ b))"
  define s1 where "s1 = run e (pre @ Load # mid) (register e cfg init)"
  define s2 where "s2 = step e (Settled 0 (Response st ct)) s1"
  have v: "verifying e cfg s1"
    unfolding s1_def using assms by (rule verifying_reached)
  have e1: "\<forall>u. ServiceWorkerRegister u \<notin> set (effects s1)"
    using v by (auto simp: verifying_def split: if_splits)
  have r: "run e (pre @ Load # mid @ Settled 0 (Response st ct) # post) (register e cfg init)
      = run e post s2" for post
    by (simp add: s1_def s2_def run_append run_Cons)
  have ok: "?ok \<longleftrightarrow> st \<noteq> 404 \<and> (ct = None \<or> (\<exists>c. ct = Some c \<and> indexOf c ''javascript'' \<noteq> - 1))"
    by (simp add: indexOf_found)
  have pass: "effects s2 = effects s1 @ [ServiceWorkerRegister ?url]" if "?ok"
  proof -
    from that ok have "st \<noteq> 404"
      "ct = None \<or> (\<exists>c. ct = Some c \<and> indexOf c ''javascript'' \<noteq> - 1)" by blast+
    from verifying_passes [OF v this] show ?thesis by (simp add: s2_def)
  qed
  have fail: "\<forall>u. ServiceWorkerRegister u \<notin> set (effects (run e post s2))"
    if "\<not> ?ok" "Load \<notin> set post" for post
  proof -
    from that(1) ok have f: "st = 404 \<or> (\<exists>c. ct = Some c \<and> indexOf c ''javascript'' = - 1)"
      by (cases ct) auto
    have s2: "s2 = (case ready_value s1 of
        None \<Rightarrow> s1\<lparr>promises := [], ready_waiting := [LogCacheFirst, UnregisterAndReload]\<rparr>
      | Some reg \<Rightarrow>
          s1\<lparr>promises := [(Suc 0, ReloadThen)], next_promise := Suc (Suc 0),
            effects := effects s1 @ [Unregister reg]\<rparr>)"
      unfolding s2_def using v f by (rule verifying_fails)
    have p: "\<forall>x \<in> set (promises s2). snd x = ReloadThen"
      unfolding s2 by (cases "ready_value s1") simp_all
    have e2: "\<forall>u. ServiceWorkerRegister u \<notin> set (effects s2)"
      using e1 unfolding s2 by (cases "ready_value s1") simp_all
    from run_no_call [OF that(2) p, of e] e2 show ?thesis by auto
  qed
  have iff: "(\<exists>u. ServiceWorkerRegister u \<in> set (effects s2)) \<longleftrightarrow> ?ok"
  proof (cases ?ok)
    case True
    from pass [OF True] have "ServiceWorkerRegister ?url \<in> set (effects s2)" by simp
    then have "\<exists>u. ServiceWorkerRegister u \<in> set (effects s2)" ..
    with True show ?thesis by blast
  next
    case False
    with fail [of "[]"] show ?thesis by (simp add: run_Nil)
  qed
  show ?thesis
    using iff pass fail r [of "[]"] r
    unfolding s1_def [symmetric]
    by (simp add: run_Nil)
qed

theorem registers_iff_found_and_not_other_content_witness:
  "NODE_ENV example_env = ''production'' \<and> serviceWorker_in_navigator example_env
   \<and> publicUrl_origin example_env = location_origin example_env
   \<and> isLocalhost (location_hostname example_env)
   \<and> Load \<notin> set ([] :: event list)
   \<and> ((200::nat) \<noteq> 404 \<and> Some ''text/javascript'' = Some (''text/'' @ ''javascript'' @ ''''))
   \<and> effects (run example_env ([] @ Load # [] @ [Settled 0 (Response 200 (Some ''text/javascript''))])
        (register example_env None init))
      = effects (run example_env ([] @ Load # []) (register example_env None init))
        @ [ServiceWorkerRegister (PUBLIC_URL example_env @ ''/service-worker.js'')]
   \<and> Some ''text/html'' \<noteq> None \<and> indexOf ''text/html'' ''javascript'' = - 1
   \<and> ServiceWorkerRegister ''/service-worker.js'' \<notin> set (effects
        (run example_env ([] @ Load # [] @ Settled 0 (Response 200 (Some ''text/html''))
            # [ReadyResolved 1, Settled 1 (Unregistered True)])
          (register example_env None init)))"
proof -
  have l: "Load \<notin> set ([] :: event list)" "\<forall>out. Settled 0 out \<notin> set ([] :: event list)"
    "Load \<notin> set [ReadyResolved 1, Settled 1 (Unregistered True)]"
    by simp_all
  have js: "(200::nat) \<noteq> 404
      \<and> (Some ''text/javascript'' = None
         \<or> (\<exists>c a b. Some ''text/javascript'' = Some c \<and> c = a @ ''javascript'' @ b))"
    by (intro conjI disjI2 exI [of _ "''text/javascript''"] exI [of _ "''text/''"]
        exI [of _ "''''"]) simp_all
  have h: "indexOf ''text/html'' ''javascript'' = - 1"
    by (simp add: indexOf_def)
  then have nh: "\<not> ((200::nat) \<noteq> 404
      \<and> (Some ''text/html'' = None
         \<or> (\<exists>c a b. Some ''text/html'' = Some c \<and> c = a @ ''javascript'' @ b)))"
    using indexOf_found [of "''text/html''" "''javascript''"] by simp
  note th = registers_iff_found_and_not_other_content [OF example_env_qualifies l(1) l(1) l(2)]
  from th [of 200 "Some ''text/javascript''" None] js
  have 1: "effects (run example_env ([] @ Load # [] @ [Settled 0 (Response 200 (Some ''text/javascript''))])
        (register example_env None init))
      = effects (run example_env ([] @ Load # []) (register example_env None init))
        @ [ServiceWorkerRegister (PUBLIC_URL example_env @ ''/service-worker.js'')]"
    by blast
  from th [of 200 "Some ''text/html''" None] nh l(3)
  have 2: "ServiceWorkerRegister ''/service-worker.js'' \<notin> set (effects
        (run example_env ([] @ Load # [] @ Settled 0 (Response 200 (Some ''text/html''))
            # [ReadyResolved 1, Settled 1 (Unregistered True)])
          (register example_env None init)))"
    by blast
  show ?thesis using example_env_qualifies l(1) 1 2 h by simp
qed

text \<open>
  Claim C7 as stated requires a \<open>content-type\<close> that contains the marker. A response with
  status 200 and no \<open>content-type\<close> header has none, and the page registers.
\<close>

theorem registers_without_content_type_counterexample:
  "isLocalhost (location_hostname example_env)
   \<and> effects (run example_env [Load, Settled 0 (Response 200 None)]
        (register example_env None init))
      = [AddLoadListener, Fetch ''/service-worker.js'',
         ServiceWorkerRegister ''/service-worker.js'']"
  by code_simp

text \<open>
  Claim C8. On a loopback host, under the same schedules, when the \<open>fetch\<close> of the worker
  script is rejected the page logs the offline message and, whatever happens afterwards,
  does nothing else but log the cache-first message when \<open>ready\<close> resolves: the one
  \<open>fetch\<close> is not repeated, \<open>navigator.serviceWorker.register\<close> is not called, and no
  rejection is left unhandled.
\<close>

theorem offline_check_skips_registration:
  assumes "NODE_ENV e = ''production''" "serviceWorker_in_navigator e"
    "publicUrl_origin e = location_origin e" "isLocalhost (location_hostname e)"
    and "Load \<notin> set pre" "Load \<notin> set mid" "\<forall>out. Settled 0 out \<notin> set mid"
    and "Load \<notin> set post"
  shows "effects (run e (pre @ Load # mid @ [Settled 0 (Rejection r)]) (register e cfg init))
           = effects (run e (pre @ Load # mid) (register e cfg init)) @ [ConsoleLog msg_offline]
     \<and> (\<exists>a b. effects (run e (pre @ Load # mid @ Settled 0 (Rejection r) # post)
                          (register e cfg init))
                 = [AddLoadListener, Fetch (PUBLIC_URL e @ ''/service-worker.js'')]
                   @ a @ [ConsoleLog msg_offline] @ b
              \<and> set a \<subseteq> {ConsoleLog msg_cache_first}
              \<and> set b \<subseteq> {ConsoleLog msg_cache_first})"
proof -
  let ?url = "PUBLIC_URL e @ ''/service-worker.js''"
  define s1 where "s1 = run e (pre @ Load # mid) (register e cfg init)"
  define s2 where "s2 = step e (Settled 0 (Rejection r)) s1"
  have v: "verifying e cfg s1"
    unfolding s1_def using assms(1-7) by (rule verifying_reached)
  have s2: "s2 = s1\<lparr>promises := [], effects := effects s1 @ [ConsoleLog msg_offline]\<rparr>"
    unfolding s2_def using v by (rule verifying_rejected)
  have r: "run e (pre @ Load # mid @ Settled 0 (Rejection r) # evs) (register e cfg init)
      = run e evs s2" for evs
    by (simp add: s1_def s2_def run_append run_Cons)
  obtain a where a: "effects s1 = [AddLoadListener, Fetch ?url] @ a"
    "set a \<subseteq> {ConsoleLog msg_cache_first}"
    using v by (cases "ready_value s1") (auto simp: verifying_def)
  have q: "promises s2 = []" "onupdatefound s2 = (\<lambda>r. None)" "onstatechange s2 = (\<lambda>w. None)"
    "set (ready_waiting s2) \<subseteq> {LogCacheFirst}"
    using v unfolding s2 by (auto simp: verifying_def split: if_splits)
  from run_quiet [OF assms(8) q, of e] obtain b where
    b: "effects (run e post s2) = effects s2 @ b" "set b \<subseteq> {ConsoleLog msg_cache_first}"
    by blast
  have 1: "effects (run e [] s2) = effects s1 @ [ConsoleLog msg_offline]"
    by (simp add: run_Nil s2)
  have 2: "effects (run e post s2) = [AddLoadListener, Fetch ?url] @ a @ [ConsoleLog msg_offline] @ b"
    using b(1) a(1) by (simp add: s2)
  show ?thesis
    using 1 2 a(2) b(2) unfolding r [symmetric] s1_def by blast
qed

theorem offline_check_skips_registration_witness:
  "NODE_ENV example_env = ''production'' \<and> serviceWorker_in_navigator example_env
   \<and> publicUrl_origin example_env = location_origin example_env
   \<and> isLocalhost (location_hostname example_env)
   \<and> Load \<notin> set ([] :: event list)
   \<and> Load \<notin> set [ReadyResolved 4, StateChange 2 Installed False]
   \<and> effects (run example_env ([] @ Load # [] @ [Settled 0 (Rejection ''Failed to fetch'')])
        (register example_env None init))
      = effects (run example_env ([] @ Load # []) (register example_env None init))
        @ [ConsoleLog msg_offline]
   \<and> (\<exists>a b. effects (run example_env ([] @ Load # [] @ Settled 0 (Rejection ''Failed to fetch'')
                   # [ReadyResolved 4, StateChange 2 Installed False])
                 (register example_env None init))
               = [AddLoadListener, Fetch (PUBLIC_URL example_env @ ''/service-worker.js'')]
                 @ a @ [ConsoleLog msg_offline] @ b
            \<and> set a \<subseteq> {ConsoleLog msg_cache_first}
            \<and> set b \<subseteq> {ConsoleLog msg_cache_first})"
proof -
  have l: "Load \<notin> set ([] :: event list)" "\<forall>out. Settled 0 out \<notin> set ([] :: event list)"
    "Load \<notin> set [ReadyResolved 4, StateChange 2 Installed False]"
    by simp_all
  from offline_check_skips_registration [OF example_env_qualifies l(1) l(1) l(2) l(3),
      of "''Failed to fetch''" None]
    example_env_qualifies l(1) l(3)
  show ?thesis by (intro conjI) blast+
qed

end
